theory Spec2Isabelle
  imports Main "HOL-Library.Sublist"
begin

text \<open>
  A model of \<open>scintec/report.py\<close>, the checker of Sodar main data files: the segmenter
  \<open>segment\<close>, the parsers \<open>parse0\<close>, \<open>parse1\<close>, \<open>_parse2\<close> and \<open>parse2\<close>, and the loop of \<open>main\<close>
  over the files with its six lists of anomalies. A file is given by its path and the lines
  \<open>readlines\<close> returns; the logging and the reports of \<open>main\<close> are left out. Every
  exception the code can raise is a value of the model, and the lists the parsers append to
  are passed through them.
\<close>

section \<open>Python strings\<close>

text \<open>
  The program is Python 2: a \<open>str\<close> is a byte string, modelled as \<^typ>\<open>string\<close>.
  \<open>str.strip()\<close> and \<open>str.split()\<close> (no argument) treat the six ASCII characters
  space, tab, line feed, vertical tab, form feed and carriage return as whitespace.
\<close>

definition isspace :: "char \<Rightarrow> bool" where
  "isspace c = (c = CHR '' '' \<or> c = CHR 0x09 \<or> c = CHR 0x0A \<or> c = CHR 0x0B
                \<or> c = CHR 0x0C \<or> c = CHR 0x0D)"

definition strip :: "string \<Rightarrow> string" where
  "strip s = rev (dropWhile isspace (rev (dropWhile isspace s)))"

text \<open>\<open>s.startswith(p)\<close>.\<close>

definition startswith :: "string \<Rightarrow> string \<Rightarrow> bool" where
  "startswith s p = prefix p s"

text \<open>
  \<open>s.split()\<close>: the maximal runs of non-whitespace characters, in order. The first argument
  of the loop is the token being read.
\<close>

fun split_ws_loop :: "string \<Rightarrow> string \<Rightarrow> string list" where
  "split_ws_loop tok [] = (if tok = [] then [] else [tok])"
| "split_ws_loop tok (c # cs) =
     (if isspace c then (if tok = [] then split_ws_loop [] cs else tok # split_ws_loop [] cs)
      else split_ws_loop (tok @ [c]) cs)"

definition split_ws :: "string \<Rightarrow> string list" where
  "split_ws s = split_ws_loop [] s"

text \<open>
  \<open>s.split(sep)\<close> for a non-empty separator: the pieces between the non-overlapping
  occurrences of \<open>sep\<close>, found from the left. Every call of the program passes a non-empty
  literal (Python raises on an empty one); for an empty \<open>sep\<close> the model returns the string
  unsplit.
\<close>

function split_sep_loop :: "string \<Rightarrow> string \<Rightarrow> string \<Rightarrow> string list" where
  "split_sep_loop sep piece [] = [piece]"
| "split_sep_loop sep piece (c # cs) =
     (if sep \<noteq> [] \<and> prefix sep (c # cs)
      then piece # split_sep_loop sep [] (drop (length sep) (c # cs))
      else split_sep_loop sep (piece @ [c]) cs)"
  by pat_completeness auto
termination
  by (relation "measure (\<lambda>(sep, piece, s). length s)") auto

definition split_sep :: "string \<Rightarrow> string \<Rightarrow> string list" where
  "split_sep s sep = split_sep_loop sep [] s"

section \<open>Errors and results\<close>

text \<open>
  The values of the standard \<open>datetime\<close> module the program builds: a \<open>datetime\<close> with its
  six fields (the microsecond is always 0 here) and a \<open>timedelta\<close> in its normalised form,
  \<open>0 \<le> seconds < 86400\<close> (the microseconds are always 0 here).
\<close>

record datetime =
  dt_year :: int
  dt_month :: int
  dt_day :: int
  dt_hour :: int
  dt_minute :: int
  dt_second :: int

record timedelta =
  td_days :: int
  td_seconds :: int

text \<open>
  An exception is a value. \<open>ParseError\<close> (the program's own class, a \<open>ValueError\<close>) carries
  the format string of the message and the arguments given to \<open>format\<close>, in order; the
  other constructors are the built-in exceptions the code can raise.
\<close>

datatype fmt_arg = FStr string | FInt int | FTime datetime | FList "string list"

datatype error =
    ParseError string "fmt_arg list"
  | ValueError
  | IndexError
  | StopIteration
  | UnboundLocalError
  | OverflowError
  | ZeroDivisionError
  | AttributeError

definition bind_e :: "error + 'a \<Rightarrow> ('a \<Rightarrow> error + 'b) \<Rightarrow> error + 'b" where
  "bind_e m f = (case m of Inl e \<Rightarrow> Inl e | Inr x \<Rightarrow> f x)"

text \<open>\<open>xs[i]\<close> for \<open>i \<ge> 0\<close>, and the unpacking of a list into two or three names.\<close>

definition nth_e :: "'a list \<Rightarrow> nat \<Rightarrow> error + 'a" where
  "nth_e xs i = (if i < length xs then Inr (xs ! i) else Inl IndexError)"

definition unpack2 :: "'a list \<Rightarrow> error + ('a \<times> 'a)" where
  "unpack2 xs = (case xs of [a, b] \<Rightarrow> Inr (a, b) | _ \<Rightarrow> Inl ValueError)"

definition unpack3 :: "'a list \<Rightarrow> error + ('a \<times> 'a \<times> 'a)" where
  "unpack3 xs = (case xs of [a, b, c] \<Rightarrow> Inr (a, b, c) | _ \<Rightarrow> Inl ValueError)"

text \<open>\<open>xs[-n:]\<close>: the last \<open>n\<close> elements, all of them when there are fewer.\<close>

definition lastn :: "nat \<Rightarrow> 'a list \<Rightarrow> 'a list" where
  "lastn n xs = drop (length xs - n) xs"

text \<open>
  \<open>int(tok)\<close> on a string without whitespace: an optional sign and one or more decimal
  digits, else \<open>ValueError\<close>. Every string the program converts is a piece of a token of
  \<open>split()\<close>, so it holds no whitespace.
\<close>

definition isdigit :: "char \<Rightarrow> bool" where
  "isdigit c = (c \<in> set ''0123456789'')"

definition digit_val :: "char \<Rightarrow> int" where
  "digit_val c = int (of_char c) - 48"

definition digits_val :: "string \<Rightarrow> int" where
  "digits_val ds = foldl (\<lambda>n c. 10 * n + digit_val c) 0 ds"

definition py_int :: "string \<Rightarrow> error + int" where
  "py_int tok =
     (case tok of
        [] \<Rightarrow> Inl ValueError
      | c # cs \<Rightarrow>
          if c = CHR ''-'' then
            (if cs \<noteq> [] \<and> list_all isdigit cs then Inr (- digits_val cs) else Inl ValueError)
          else if c = CHR ''+'' then
            (if cs \<noteq> [] \<and> list_all isdigit cs then Inr (digits_val cs) else Inl ValueError)
          else if list_all isdigit tok then Inr (digits_val tok)
          else Inl ValueError)"

section \<open>The datetime module\<close>

text \<open>
  The proleptic Gregorian calendar of the \<open>datetime\<close> module: \<open>ymd2ord\<close> numbers the days
  from 0001-01-01 (day 1), \<open>ord2ymd\<close> is its inverse, computed as the module computes it
  from the cycles of 400, 100, 4 and 1 years.
\<close>

definition is_leap :: "int \<Rightarrow> bool" where
  "is_leap y = (y mod 4 = 0 \<and> (y mod 100 \<noteq> 0 \<or> y mod 400 = 0))"

definition days_in_month :: "int \<Rightarrow> int \<Rightarrow> int" where
  "days_in_month y m =
     (if m = 2 then (if is_leap y then 29 else 28)
      else if m = 4 \<or> m = 6 \<or> m = 9 \<or> m = 11 then 30 else 31)"

definition days_before_year :: "int \<Rightarrow> int" where
  "days_before_year y = (y - 1) * 365 + (y - 1) div 4 - (y - 1) div 100 + (y - 1) div 400"

definition days_before_month_tab :: "int list" where
  "days_before_month_tab = [0, 31, 59, 90, 120, 151, 181, 212, 243, 273, 304, 334]"

definition days_before_month :: "int \<Rightarrow> int \<Rightarrow> int" where
  "days_before_month y m =
     days_before_month_tab ! nat (m - 1) + (if 2 < m \<and> is_leap y then 1 else 0)"

definition ymd2ord :: "int \<Rightarrow> int \<Rightarrow> int \<Rightarrow> int" where
  "ymd2ord y m d = days_before_year y + days_before_month y m + d"

definition ord2ymd :: "int \<Rightarrow> int \<times> int \<times> int" where
  "ord2ymd ordinal =
     (let n = ordinal - 1;
          n400 = n div 146097; n = n mod 146097;
          n100 = n div 36524; n = n mod 36524;
          n4 = n div 1461; n = n mod 1461;
          n1 = n div 365; n = n mod 365;
          y = n400 * 400 + 1 + n100 * 100 + n4 * 4 + n1
      in if n1 = 4 \<or> n100 = 4 then (y - 1, 12, 31)
         else
           (let leapyear = (n1 = 3 \<and> (n4 \<noteq> 24 \<or> n100 = 3));
                m = (n + 50) div 32;
                preceding = days_before_month_tab ! nat (m - 1)
                              + (if 2 < m \<and> leapyear then 1 else 0)
            in if n < preceding
               then (y, m - 1, n - (preceding - days_in_month y (m - 1)) + 1)
               else (y, m, n - preceding + 1)))"

text \<open>
  \<open>datetime(year, month, day, hour, minute, second)\<close>: \<open>ValueError\<close> outside the ranges.
  (For a field that does not fit a C \<open>int\<close> CPython raises \<open>OverflowError\<close> in its place; the
  program never tells the two apart, since the only handler is the bare \<open>except\<close> of \<open>main\<close>.)
\<close>

definition datetime_new :: "int \<Rightarrow> int \<Rightarrow> int \<Rightarrow> int \<Rightarrow> int \<Rightarrow> int \<Rightarrow> error + datetime" where
  "datetime_new y m d h mi s =
     (if 1 \<le> y \<and> y \<le> 9999 \<and> 1 \<le> m \<and> m \<le> 12 \<and> 1 \<le> d \<and> d \<le> days_in_month y m
         \<and> 0 \<le> h \<and> h \<le> 23 \<and> 0 \<le> mi \<and> mi \<le> 59 \<and> 0 \<le> s \<and> s \<le> 59
      then Inr \<lparr>dt_year = y, dt_month = m, dt_day = d, dt_hour = h, dt_minute = mi, dt_second = s\<rparr>
      else Inl ValueError)"

text \<open>
  A \<open>timedelta\<close> from a number of seconds, normalised; \<open>OverflowError\<close> when the days
  leave \<open>\<plusminus>999999999\<close>. \<open>timedelta(hours=h, minutes=m, seconds=s)\<close> and \<open>index * delta\<close>
  both normalise their total.
\<close>

definition td_of_seconds :: "int \<Rightarrow> error + timedelta" where
  "td_of_seconds t =
     (if - 999999999 \<le> t div 86400 \<and> t div 86400 \<le> 999999999
      then Inr \<lparr>td_days = t div 86400, td_seconds = t mod 86400\<rparr>
      else Inl OverflowError)"

definition total_seconds :: "timedelta \<Rightarrow> int" where
  "total_seconds delta = td_days delta * 86400 + td_seconds delta"

definition timedelta_new :: "int \<Rightarrow> int \<Rightarrow> int \<Rightarrow> error + timedelta" where
  "timedelta_new hours minutes seconds = td_of_seconds (hours * 3600 + minutes * 60 + seconds)"

definition td_mul :: "int \<Rightarrow> timedelta \<Rightarrow> error + timedelta" where
  "td_mul index delta = td_of_seconds (index * total_seconds delta)"

text \<open>
  \<open>stamp + delta\<close>: the fields are carried over the day boundary; \<open>OverflowError\<close> when the
  date leaves the years 1 to 9999 (day numbers 1 to 3652059).
\<close>

definition datetime_add :: "datetime \<Rightarrow> timedelta \<Rightarrow> error + datetime" where
  "datetime_add stamp delta =
     (let secs = dt_hour stamp * 3600 + dt_minute stamp * 60 + dt_second stamp + td_seconds delta;
          ordinal = ymd2ord (dt_year stamp) (dt_month stamp) (dt_day stamp) + td_days delta
                      + secs div 86400;
          s = secs mod 86400
      in if ordinal < 1 \<or> 3652059 < ordinal then Inl OverflowError
         else (case ord2ymd ordinal of
                 (y, m, d) \<Rightarrow>
                   Inr \<lparr>dt_year = y, dt_month = m, dt_day = d, dt_hour = s div 3600,
                        dt_minute = (s mod 3600) div 60, dt_second = s mod 60\<rparr>))"

section \<open>Segmenter\<close>

text \<open>
  \<open>segment(lines)\<close>, lines 17-31. The Python keeps the current segment as the last element
  of \<open>segments\<close> and appends to it through the alias \<open>segment\<close>. The model keeps the two
  apart: \<open>segs\<close> holds the closed segments and \<open>seg\<close> the current one, so that the Python
  list \<open>segments\<close> is \<open>segs @ [seg]\<close> at every point of the loop.
\<close>

fun segment_loop :: "string list list \<Rightarrow> string list \<Rightarrow> string list
    \<Rightarrow> string list list \<times> string list" where
  "segment_loop segs seg [] = (segs, seg)"
| "segment_loop segs seg (line # lines) =
     (let l = strip line in
      if l \<noteq> [] then segment_loop segs (seg @ [l]) lines
      else if seg \<noteq> [] then segment_loop (segs @ [seg]) [] lines
      else segment_loop segs seg lines)"

definition segment :: "string list \<Rightarrow> string list list" where
  "segment lines =
     (case segment_loop [] [] lines of
        (segs, seg) \<Rightarrow> if seg = [] then segs else segs @ [seg])"

section \<open>Header parser\<close>

text \<open>The path and extension separators of the platform the archive lives on (POSIX).\<close>

definition os_sep :: string where
  "os_sep = ''/''"

definition os_extsep :: string where
  "os_extsep = ''.''"

text \<open>
  The dictionary \<open>parse0\<close> returns (\<open>segment0\<close> in the callers): \<open>h_bin_count segment0\<close> is
  \<open>segment0['bin_count']\<close>, and so on for the other keys.
\<close>

record header =
  h_start_stamp :: datetime
  h_file_count :: int
  h_comment_count :: int
  h_variable_count :: int
  h_bin_count :: int

text \<open>
  \<open>parse0\<close>, lines 40-100: the lines of the segment and the path are taken apart, the string
  matches, the number conversions and the range checks are made, in the order of the source.
  The parameter \<open>seg\<close> is the source's \<open>segment\<close>. The result is the start date and time as
  six integers, the four counts and the seventh character of the file name. The message of
  the check of the directory year against the start year is formatted with \<open>start_month\<close>,
  as line 66 does.
\<close>

definition parse0_checks :: "string list \<Rightarrow> string
    \<Rightarrow> error + ((int \<times> int \<times> int \<times> int \<times> int \<times> int) \<times> (int \<times> int \<times> int \<times> int) \<times> string)" where
  "parse0_checks seg mnd =
     bind_e (nth_e seg 0) (\<lambda>file_format.
     bind_e (bind_e (nth_e seg 1) (\<lambda>l. unpack3 (split_ws l)))
       (\<lambda>(start_date, start_time, file_count).
     bind_e (unpack3 (split_sep start_date ''-'')) (\<lambda>(start_year, start_month, start_day).
     bind_e (unpack3 (split_sep start_time '':'')) (\<lambda>(start_hour, start_min, start_sec).
     bind_e (nth_e seg 2) (\<lambda>instrument_type.
     bind_e (bind_e (nth_e seg 3) (\<lambda>l. unpack3 (split_ws l)))
       (\<lambda>(comment_count, variable_count, bin_count).
     bind_e (unpack2 (lastn 2 (split_sep mnd os_sep))) (\<lambda>(mnd_dir, mnd_file).
     let dir_year = take 4 mnd_dir;
         dir_month = lastn 2 mnd_dir;
         file_year = take 2 mnd_file;
         file_month = take 2 (drop 2 mnd_file);
         file_day = take 2 (drop 4 mnd_file)
     in
     bind_e (bind_e (nth_e mnd_file 6) (\<lambda>c. Inr [c])) (\<lambda>file_extra.
     let file_extension = lastn 3 mnd_file in
     if file_format \<noteq> ''FORMAT-1'' then
       Inl (ParseError ''File format {0} is incorrect'' [FStr file_format])
     else if lastn 2 dir_year \<noteq> file_year then
       Inl (ParseError ''Directory year {0} is not same as file year {1}''
              [FStr dir_year, FStr file_year])
     else if dir_month \<noteq> file_month then
       Inl (ParseError ''Directory month {0} is not same as file month {1}''
              [FStr dir_month, FStr file_month])
     else if dir_year \<noteq> start_year then
       Inl (ParseError ''Directory year {0} is not same as start year {1}''
              [FStr dir_year, FStr start_month])
     else if dir_month \<noteq> start_month then
       Inl (ParseError ''Directory month {0} is not same as start month {1}''
              [FStr dir_month, FStr start_month])
     else if file_day \<noteq> start_day then
       Inl (ParseError ''File day {0} is not same as start day {1}''
              [FStr file_day, FStr start_day])
     else if instrument_type \<noteq> ''SFAS'' then
       Inl (ParseError ''Instrument type {0} is incorrect'' [FStr instrument_type])
     else if file_extension \<noteq> ''mnd'' then
       Inl (ParseError ''File extension {0} is incorrect'' [FStr file_extension])
     else
     bind_e (py_int start_year) (\<lambda>start_year.
     bind_e (py_int start_month) (\<lambda>start_month.
     bind_e (py_int start_day) (\<lambda>start_day.
     bind_e (py_int start_hour) (\<lambda>start_hour.
     bind_e (py_int start_min) (\<lambda>start_min.
     bind_e (py_int start_sec) (\<lambda>start_sec.
     bind_e (py_int file_count) (\<lambda>file_count.
     bind_e (py_int comment_count) (\<lambda>comment_count.
     bind_e (py_int variable_count) (\<lambda>variable_count.
     bind_e (py_int bin_count) (\<lambda>bin_count.
     if \<not> (2008 < start_year \<and> start_year < 2014) then
       Inl (ParseError ''Start year {0} out of range'' [FInt start_year])
     else if \<not> (0 < start_month \<and> start_month < 13) then
       Inl (ParseError ''Start month {0} out of range'' [FInt start_month])
     else if \<not> (0 < start_day \<and> start_day < 32) then
       Inl (ParseError ''Start day {0} out of range'' [FInt start_day])
     else if \<not> (0 \<le> start_hour \<and> start_hour < 25) then
       Inl (ParseError ''Start hour {0} out of range'' [FInt start_hour])
     else if \<not> (0 \<le> start_min \<and> start_min < 61) then
       Inl (ParseError ''Start minute {0} out of range'' [FInt start_min])
     else if \<not> (0 \<le> start_sec \<and> start_sec < 61) then
       Inl (ParseError ''Start second {0} out of range'' [FInt start_sec])
     else
       Inr ((start_year, start_month, start_day, start_hour, start_min, start_sec),
            (file_count, comment_count, variable_count, bin_count),
            file_extra)))))))))))))))))))"

text \<open>
  \<open>parse0\<close>, lines 102-110. The list \<open>augmented_mnds\<close> is mutated in place, so the model
  returns it beside the result, also when an exception leaves the function: the append of
  line 103 comes before the \<open>datetime\<close> of line 105 is built, and stands when that fails.
\<close>

definition parse0 :: "string list \<Rightarrow> string \<Rightarrow> string list \<Rightarrow> (error + header) \<times> string list" where
  "parse0 seg mnd augmented_mnds =
     (case parse0_checks seg mnd of
        Inl e \<Rightarrow> (Inl e, augmented_mnds)
      | Inr ((y, mo, d, h, mi, s), (n_files, n_comments, n_variables, n_bins), file_extra) \<Rightarrow>
          (let augmented_mnds =
                 (if file_extra \<noteq> os_extsep then augmented_mnds @ [mnd] else augmented_mnds)
           in (bind_e (datetime_new y mo d h mi s)
                 (\<lambda>stamp. Inr \<lparr>h_start_stamp = stamp, h_file_count = n_files,
                               h_comment_count = n_comments,
                               h_variable_count = n_variables, h_bin_count = n_bins\<rparr>),
               augmented_mnds)))"

section \<open>Constants parser\<close>

text \<open>The dictionary \<open>parse1\<close> returns (\<open>segment1\<close> in the callers).\<close>

record constants =
  c_angle :: int
  c_elevation :: int
  c_height :: int
  c_variables :: "string list"

text \<open>
  The iterator \<open>isegment\<close> is the list of the lines not yet read; the cursor of the parser is
  the current \<open>line\<close> and that list. \<open>isegment.next()\<close> raises \<open>StopIteration\<close> at the end.
\<close>

definition next_line :: "string list \<Rightarrow> error + (string \<times> string list)" where
  "next_line rest = (case rest of [] \<Rightarrow> Inl StopIteration | l # ls \<Rightarrow> Inr (l, ls))"

text \<open>\<open>while line.startswith('#'): line = isegment.next()\<close>\<close>

fun skip_comments :: "string \<Rightarrow> string list \<Rightarrow> error + (string \<times> string list)" where
  "skip_comments line [] = (if startswith line ''#'' then Inl StopIteration else Inr (line, []))"
| "skip_comments line (l # ls) =
     (if startswith line ''#'' then skip_comments l ls else Inr (line, l # ls))"

text \<open>\<open>int(line.split()[-1])\<close>\<close>

definition last_int :: "string \<Rightarrow> error + int" where
  "last_int line =
     (let tokens = split_ws line in if tokens = [] then Inl IndexError else py_int (last tokens))"

text \<open>
  The body of the loop of lines 123-130. The three locals \<open>angle\<close>, \<open>elevation\<close> and \<open>height\<close>
  are unbound until their line is read: each is an \<^typ>\<open>int option\<close>.
\<close>

definition set_constant :: "int option \<times> int option \<times> int option \<Rightarrow> string
    \<Rightarrow> error + (int option \<times> int option \<times> int option)" where
  "set_constant locals line =
     (case locals of
        (a, e, h) \<Rightarrow>
          if startswith line ''antenna azimuth angle [deg] : '' then
            bind_e (last_int line) (\<lambda>n. Inr (Some n, e, h))
          else if startswith line ''height above ground [m]     : '' then
            bind_e (last_int line) (\<lambda>n. Inr (a, Some n, h))
          else if startswith line ''height above sea level [m]  : '' then
            bind_e (last_int line) (\<lambda>n. Inr (a, e, Some n))
          else Inr (a, e, h))"

fun read_constants :: "int option \<times> int option \<times> int option \<Rightarrow> string \<Rightarrow> string list
    \<Rightarrow> error + ((int option \<times> int option \<times> int option) \<times> string \<times> string list)" where
  "read_constants locals line [] =
     (if startswith line ''#'' then Inr (locals, line, [])
      else (case set_constant locals line of
              Inl e \<Rightarrow> Inl e
            | Inr locals' \<Rightarrow> Inl StopIteration))"
| "read_constants locals line (l # ls) =
     (if startswith line ''#'' then Inr (locals, line, l # ls)
      else (case set_constant locals line of
              Inl e \<Rightarrow> Inl e
            | Inr locals' \<Rightarrow> read_constants locals' l ls))"

text \<open>The loop of lines 144-146, run \<open>variable_count\<close> times (not at all for a count below 1).\<close>

fun read_variables :: "nat \<Rightarrow> string list \<Rightarrow> string \<Rightarrow> string list
    \<Rightarrow> error + (string list \<times> string \<times> string list)" where
  "read_variables 0 vars line rest = Inr (vars, line, rest)"
| "read_variables (Suc n) vars line rest =
     (case nth_e (split_sep line '' # '') 1 of
        Inl e \<Rightarrow> Inl e
      | Inr v \<Rightarrow>
          (case rest of
             [] \<Rightarrow> Inl StopIteration
           | l # ls \<Rightarrow> read_variables n (vars @ [v]) l ls))"

text \<open>
  \<open>parse1\<close>, lines 113-160 (\<open>seg\<close> is the source's \<open>segment\<close>). The \<open>return\<close> reads the three
  locals: \<open>UnboundLocalError\<close> when a labelled line was missing.
\<close>

definition parse1 :: "string list \<Rightarrow> string \<Rightarrow> header \<Rightarrow> error + constants" where
  "parse1 seg mnd segment0 =
     bind_e (next_line seg) (\<lambda>(line, rest).
     bind_e (skip_comments line rest) (\<lambda>(line, rest).
     bind_e (read_constants (None, None, None) line rest) (\<lambda>(locals, line, rest).
     bind_e (skip_comments line rest) (\<lambda>(line, rest).
     if \<not> startswith line ''Main Data'' then
       Inl (ParseError ''Main data declaration misplaced'' [])
     else
     bind_e (next_line rest) (\<lambda>(line, rest).
     bind_e (skip_comments line rest) (\<lambda>(line, rest).
     bind_e (read_variables (nat (h_variable_count segment0)) [] line rest)
       (\<lambda>(vars, line, rest).
     bind_e (nth_e vars 0) (\<lambda>first.
     if first \<noteq> ''z'' then Inl (ParseError ''First variable is not z'' [])
     else if \<not> startswith line ''error code #'' then
       Inl (ParseError ''Error code declaration misplaced'' [])
     else
     bind_e (next_line rest) (\<lambda>(line, rest).
     (case locals of
        (Some a, Some e, Some h) \<Rightarrow>
          Inr \<lparr>c_angle = a, c_elevation = e, c_height = h, c_variables = vars @ [''error'']\<rparr>
      | _ \<Rightarrow> Inl UnboundLocalError))))))))))"

section \<open>Sample parser\<close>

text \<open>The dictionary \<open>_parse2\<close> returns: the grid of one sample (\<open>segment2\<close> in the callers).\<close>

record grid =
  g_sample_interval :: timedelta
  g_min_elevation :: int
  g_max_elevation :: int
  g_bin_height :: int
  g_bin_count :: int

text \<open>\<open>xs[-1]\<close>, and the quotient \<open>a / b\<close> of two Python 2 integers (rounded down).\<close>

definition last_e :: "'a list \<Rightarrow> error + 'a" where
  "last_e xs = (if xs = [] then Inl IndexError else Inr (last xs))"

definition py_div :: "int \<Rightarrow> int \<Rightarrow> error + int" where
  "py_div a b = (if b = 0 then Inl ZeroDivisionError else Inr (a div b))"

text \<open>
  The loop of lines 221-224 over \<open>zip(data[:-1], data[1:])\<close>: the adjacent pairs of rows, in
  order (\<open>nxt\<close> is the source's \<open>next\<close>).
\<close>

fun check_rows :: "int \<Rightarrow> string list list \<Rightarrow> error + unit" where
  "check_rows bin_height (prev # nxt # rows) =
     (case bind_e (nth_e nxt 0) (\<lambda>n0. bind_e (py_int n0) (\<lambda>n.
           bind_e (nth_e prev 0) (\<lambda>p0. bind_e (py_int p0) (\<lambda>p.
           if n - p \<noteq> bin_height then
             Inl (ParseError ''Uneven elevation interval {0} to {1} compared to bin height {2!s}''
                    [FStr p0, FStr n0, FInt bin_height])
           else Inr ())))) of
        Inl e \<Rightarrow> Inl e
      | Inr u \<Rightarrow> check_rows bin_height (nxt # rows))"
| "check_rows bin_height rows = Inr ()"

text \<open>
  \<open>_parse2\<close>, lines 163-231, in the four parts its comments name (\<open>seg\<close> is the source's
  \<open>segment\<close>). First lines 166-188: the first line is taken apart, its nine numbers are
  converted and the range checks are made. The third range check tests \<open>start_sec\<close>, as
  line 187 does, and formats \<open>sample_sec\<close> into its message.
\<close>

definition sample_fields :: "string list
    \<Rightarrow> error + ((int \<times> int \<times> int \<times> int \<times> int \<times> int) \<times> (int \<times> int \<times> int))" where
  "sample_fields seg =
     bind_e (bind_e (nth_e seg 0) (\<lambda>l. unpack3 (split_ws l)))
       (\<lambda>(start_date, start_time, sample_interval).
     bind_e (unpack3 (split_sep start_date ''-'')) (\<lambda>(start_year, start_month, start_day).
     bind_e (unpack3 (split_sep start_time '':'')) (\<lambda>(start_hour, start_min, start_sec).
     bind_e (unpack3 (split_sep sample_interval '':'')) (\<lambda>(sample_hour, sample_min, sample_sec).
     bind_e (py_int start_year) (\<lambda>start_year.
     bind_e (py_int start_month) (\<lambda>start_month.
     bind_e (py_int start_day) (\<lambda>start_day.
     bind_e (py_int start_hour) (\<lambda>start_hour.
     bind_e (py_int start_min) (\<lambda>start_min.
     bind_e (py_int start_sec) (\<lambda>start_sec.
     bind_e (py_int sample_hour) (\<lambda>sample_hour.
     bind_e (py_int sample_min) (\<lambda>sample_min.
     bind_e (py_int sample_sec) (\<lambda>sample_sec.
     if \<not> (0 \<le> sample_hour \<and> sample_hour < 25) then
       Inl (ParseError ''Sample hour {0} out of range'' [FInt sample_hour])
     else if \<not> (0 \<le> sample_min \<and> sample_min < 61) then
       Inl (ParseError ''Sample minute {0} out of range'' [FInt sample_min])
     else if \<not> (0 \<le> start_sec \<and> start_sec < 61) then
       Inl (ParseError ''Sample second {0} out of range'' [FInt sample_sec])
     else
       Inr ((start_year, start_month, start_day, start_hour, start_min, start_sec),
            (sample_hour, sample_min, sample_sec)))))))))))))))"

text \<open>
  Lines 190-198, the timestamp check: the interval when the stamp of the sample is the
  start of the file plus \<open>index\<close> intervals. The message is given \<open>sample_interval.seconds\<close>,
  the seconds field of the normalised interval.
\<close>

definition check_stamp :: "int \<Rightarrow> header
    \<Rightarrow> (int \<times> int \<times> int \<times> int \<times> int \<times> int) \<times> (int \<times> int \<times> int) \<Rightarrow> error + timedelta" where
  "check_stamp index segment0 numbers =
     (case numbers of
        ((start_year, start_month, start_day, start_hour, start_min, start_sec),
         (sample_hour, sample_min, sample_sec)) \<Rightarrow>
     bind_e (datetime_new start_year start_month start_day start_hour start_min start_sec)
       (\<lambda>start_stamp.
     bind_e (timedelta_new sample_hour sample_min sample_sec) (\<lambda>sample_interval.
     bind_e (bind_e (td_mul index sample_interval) (datetime_add (h_start_stamp segment0)))
       (\<lambda>expected.
     if start_stamp \<noteq> expected then
       Inl (ParseError ''Mismatched file start time {0} and sample start time {1} (sample = {2}, interval = {3})''
              [FTime (h_start_stamp segment0), FTime start_stamp, FInt index,
               FInt (td_seconds sample_interval)])
     else Inr sample_interval))))"

text \<open>Lines 200-205, the variables check.\<close>

definition check_variables :: "string list \<Rightarrow> constants \<Rightarrow> error + unit" where
  "check_variables seg segment1 =
     bind_e (nth_e seg 1) (\<lambda>l.
     let variables = drop 1 (split_ws l) in
     if variables \<noteq> c_variables segment1 then
       Inl (ParseError ''Mismatched file variable list {0} and first sample variable list {1}''
              [FList (c_variables segment1), FList variables])
     else Inr ())"

text \<open>
  Lines 207-224, the rows: the elevations of the first and the last row, the row count,
  the bin height and the evenness of the rows. The message of the row count check is
  built from \<open>segment0['bin_count'].bin_count\<close> (lines 218-219), an attribute of an integer:
  \<open>AttributeError\<close> is raised while the arguments of \<open>ParseError\<close> are evaluated.
\<close>

definition check_data :: "string list \<Rightarrow> header \<Rightarrow> error + (int \<times> int \<times> int \<times> int)" where
  "check_data seg segment0 =
     (let data = map split_ws (drop 2 seg) in
      bind_e (bind_e (bind_e (nth_e data 0) (\<lambda>row. nth_e row 0)) py_int) (\<lambda>min_elevation.
      bind_e (bind_e (bind_e (last_e data) (\<lambda>row. nth_e row 0)) py_int) (\<lambda>max_elevation.
      let bin_count = int (length data) in
      if bin_count \<noteq> h_bin_count segment0 then Inl AttributeError
      else
      bind_e (py_div (max_elevation - min_elevation) (bin_count - 1)) (\<lambda>bin_height.
      bind_e (check_rows bin_height data) (\<lambda>u.
      Inr (min_elevation, max_elevation, bin_height, bin_count))))))"

definition parse2_sample :: "int \<Rightarrow> string list \<Rightarrow> string \<Rightarrow> header \<Rightarrow> constants \<Rightarrow> error + grid" where
  "parse2_sample index seg mnd segment0 segment1 =
     bind_e (sample_fields seg) (\<lambda>numbers.
     bind_e (check_stamp index segment0 numbers) (\<lambda>sample_interval.
     bind_e (check_variables seg segment1) (\<lambda>u.
     bind_e (check_data seg segment0) (\<lambda>(min_elevation, max_elevation, bin_height, bin_count).
     Inr \<lparr>g_sample_interval = sample_interval, g_min_elevation = min_elevation,
          g_max_elevation = max_elevation, g_bin_height = bin_height,
          g_bin_count = bin_count\<rparr>))))"

text \<open>
  \<open>parse2\<close>, lines 234-244. The loop runs over \<open>segments[3:]\<close> with \<open>i = index + 1\<close>; the list
  \<open>inconsistent_segments\<close> is mutated in place and returned beside the result.
\<close>

fun parse2_loop :: "int \<Rightarrow> string list list \<Rightarrow> string \<Rightarrow> header \<Rightarrow> constants \<Rightarrow> grid
    \<Rightarrow> (int \<times> string) list \<Rightarrow> (error + grid) \<times> (int \<times> string) list" where
  "parse2_loop i [] mnd segment0 segment1 segment2 inconsistent_segments =
     (Inr segment2, inconsistent_segments)"
| "parse2_loop i (seg # segs) mnd segment0 segment1 segment2 inconsistent_segments =
     (case parse2_sample i seg mnd segment0 segment1 of
        Inl e \<Rightarrow> (Inl e, inconsistent_segments)
      | Inr segmentx \<Rightarrow>
          if segmentx \<noteq> segment2 then (Inr segment2, inconsistent_segments @ [(i, mnd)])
          else parse2_loop (i + 1) segs mnd segment0 segment1 segment2 inconsistent_segments)"

definition parse2 :: "string list list \<Rightarrow> string \<Rightarrow> header \<Rightarrow> constants
    \<Rightarrow> (int \<times> string) list \<Rightarrow> (error + grid) \<times> (int \<times> string) list" where
  "parse2 segments mnd segment0 segment1 inconsistent_segments =
     (case bind_e (nth_e segments 2) (\<lambda>seg. parse2_sample 0 seg mnd segment0 segment1) of
        Inl e \<Rightarrow> (Inl e, inconsistent_segments)
      | Inr segment2 \<Rightarrow>
          parse2_loop 1 (drop 3 segments) mnd segment0 segment1 segment2 inconsistent_segments)"

section \<open>File validator\<close>

text \<open>
  The locals of \<open>main\<close> that live across the files: the six anomaly lists and the four
  \<open>prev_\<close> variables, \<open>None\<close> until a file has been parsed.
\<close>

record state =
  irregular_segments :: "(string \<times> nat) list"
  insufficient_segments :: "string list"
  inconsistent_segments :: "(int \<times> string) list"
  augmented_mnds :: "string list"
  incongruent_mnds :: "(string \<times> grid) list"
  exceptional_mnds :: "string list"
  prev_mnd :: "string option"
  prev_segment0 :: "header option"
  prev_segment1 :: "constants option"
  prev_segment2 :: "grid option"

definition initial_state :: state where
  "initial_state =
     \<lparr>irregular_segments = [], insufficient_segments = [], inconsistent_segments = [],
      augmented_mnds = [], incongruent_mnds = [], exceptional_mnds = [],
      prev_mnd = None, prev_segment0 = None, prev_segment1 = None, prev_segment2 = None\<rparr>"

text \<open>\<open>if prev_mnd:\<close> is the truth value of \<open>None\<close> or of a string.\<close>

definition truthy :: "string option \<Rightarrow> bool" where
  "truthy p = (case p of None \<Rightarrow> False | Some path \<Rightarrow> path \<noteq> [])"

text \<open>
  Lines 305-307: the three parsers in turn. The two lists they append to are returned as
  they stand when the block is left, by its end or by an exception.
\<close>

definition parse_segments :: "string list list \<Rightarrow> string \<Rightarrow> string list \<Rightarrow> (int \<times> string) list
    \<Rightarrow> (error + header \<times> constants \<times> grid) \<times> string list \<times> (int \<times> string) list" where
  "parse_segments segments mnd augmenteds inconsistents =
     (case nth_e segments 0 of
        Inl e \<Rightarrow> (Inl e, augmenteds, inconsistents)
      | Inr seg0 \<Rightarrow>
          (case parse0 seg0 mnd augmenteds of
             (Inl e, augmenteds) \<Rightarrow> (Inl e, augmenteds, inconsistents)
           | (Inr segment0, augmenteds) \<Rightarrow>
               (case bind_e (nth_e segments 1) (\<lambda>seg1. parse1 seg1 mnd segment0) of
                  Inl e \<Rightarrow> (Inl e, augmenteds, inconsistents)
                | Inr segment1 \<Rightarrow>
                    (case parse2 segments mnd segment0 segment1 inconsistents of
                       (Inl e, inconsistents) \<Rightarrow> (Inl e, augmenteds, inconsistents)
                     | (Inr segment2, inconsistents) \<Rightarrow>
                         (Inr (segment0, segment1, segment2), augmenteds, inconsistents)))))"

text \<open>
  The body of the \<open>try\<close>, lines 297-316, for the file \<open>mnd\<close> whose lines \<open>readlines\<close> has
  returned: the exception that leaves it, if any, and the state at that point.
\<close>

definition try_body :: "state \<Rightarrow> string \<Rightarrow> string list \<Rightarrow> error option \<times> state" where
  "try_body st mnd lines =
     (let segments = segment lines in
      if length segments \<noteq> 50 then
        (None, st\<lparr>irregular_segments := irregular_segments st @ [(mnd, length segments)]\<rparr>)
      else if length segments < 3 then
        (None, st\<lparr>insufficient_segments := insufficient_segments st @ [mnd]\<rparr>)
      else
        (case parse_segments segments mnd (augmented_mnds st) (inconsistent_segments st) of
           (Inl e, augmenteds, inconsistents) \<Rightarrow>
             (Some e, st\<lparr>augmented_mnds := augmenteds, inconsistent_segments := inconsistents\<rparr>)
         | (Inr (segment0, segment1, segment2), augmenteds, inconsistents) \<Rightarrow>
             (None,
              st\<lparr>augmented_mnds := augmenteds,
                 inconsistent_segments := inconsistents,
                 incongruent_mnds :=
                   (if truthy (prev_mnd st) then
                      (if Some segment2 \<noteq> prev_segment2 st
                       then incongruent_mnds st @ [(mnd, segment2)]
                       else incongruent_mnds st)
                    else incongruent_mnds st @ [(mnd, segment2)]),
                 prev_mnd := Some mnd,
                 prev_segment0 := Some segment0,
                 prev_segment1 := Some segment1,
                 prev_segment2 := Some segment2\<rparr>)))"

text \<open>
  One turn of the loop over the files, lines 293-320: the \<open>except\<close> clause records the file
  and the loop goes on. A file is its path and its lines.
\<close>

definition process_file :: "state \<Rightarrow> string \<times> string list \<Rightarrow> state" where
  "process_file st file =
     (case try_body st (fst file) (snd file) of
        (None, st') \<Rightarrow> st'
      | (Some e, st') \<Rightarrow> st'\<lparr>exceptional_mnds := exceptional_mnds st' @ [fst file]\<rparr>)"

text \<open>The loop of \<open>main\<close> over the files, in the sorted order \<open>glob\<close> and \<open>sort\<close> give them.\<close>

definition main_loop :: "state \<Rightarrow> (string \<times> string list) list \<Rightarrow> state" where
  "main_loop st files = foldl process_file st files"

section \<open>Example files\<close>

text \<open>
  A well-formed main data file, used to evaluate the model: a header for 2010-01-05, the
  constants segment with two variables, and 48 samples ten minutes apart, each of three
  rows 10 m apart. \<open>raw\<close> ends every line with a line feed, as \<open>readlines\<close> returns them.
\<close>

definition raw :: "string list \<Rightarrow> string list" where
  "raw ls = map (\<lambda>l. l @ [CHR 0x0A]) ls"

definition example_header :: "string list" where
  "example_header = [''FORMAT-1'', ''2010-01-05 00:00:00 1'', ''SFAS'', ''2 2 3'']"

definition example_constants :: "string list" where
  "example_constants =
     [''# file information'',
      ''antenna azimuth angle [deg] : 12'',
      ''height above ground [m]     : 5'',
      ''height above sea level [m]  : 30'',
      ''# file type'',
      ''Main Data'',
      ''# variable definitions'',
      ''z # z # m'',
      ''speed # speed # m/s'',
      ''error code # error'',
      ''#'']"

definition example_rows :: "string list" where
  "example_rows = [''# z speed error'', ''0 1.5 0'', ''10 2.5 0'', ''20 3.5 0'']"

definition example_times :: "string list" where
  "example_times =
     [''00:00:00'', ''00:10:00'', ''00:20:00'', ''00:30:00'', ''00:40:00'', ''00:50:00'',
      ''01:00:00'', ''01:10:00'', ''01:20:00'', ''01:30:00'', ''01:40:00'', ''01:50:00'',
      ''02:00:00'', ''02:10:00'', ''02:20:00'', ''02:30:00'', ''02:40:00'', ''02:50:00'',
      ''03:00:00'', ''03:10:00'', ''03:20:00'', ''03:30:00'', ''03:40:00'', ''03:50:00'',
      ''04:00:00'', ''04:10:00'', ''04:20:00'', ''04:30:00'', ''04:40:00'', ''04:50:00'',
      ''05:00:00'', ''05:10:00'', ''05:20:00'', ''05:30:00'', ''05:40:00'', ''05:50:00'',
      ''06:00:00'', ''06:10:00'', ''06:20:00'', ''06:30:00'', ''06:40:00'', ''06:50:00'',
      ''07:00:00'', ''07:10:00'', ''07:20:00'', ''07:30:00'', ''07:40:00'', ''07:50:00'']"

definition example_samples :: "string list list" where
  "example_samples =
     map (\<lambda>t. (''2010-01-05 '' @ t @ '' 00:10:00'') # example_rows) example_times"

definition file_lines :: "string list \<Rightarrow> string list \<Rightarrow> string list list \<Rightarrow> string list" where
  "file_lines hdr consts samples =
     raw (hdr @ [[]] @ consts @ [[], []] @ concat (map (\<lambda>s. s @ [[]]) samples))"

definition example_file :: "string list" where
  "example_file = file_lines example_header example_constants example_samples"

definition example_segment0 :: header where
  "example_segment0 =
     \<lparr>h_start_stamp = \<lparr>dt_year = 2010, dt_month = 1, dt_day = 5,
                        dt_hour = 0, dt_minute = 0, dt_second = 0\<rparr>,
      h_file_count = 1, h_comment_count = 2, h_variable_count = 2, h_bin_count = 3\<rparr>"

definition example_segment1 :: constants where
  "example_segment1 =
     \<lparr>c_angle = 12, c_elevation = 5, c_height = 30,
      c_variables = [''z'', ''speed'', ''error'']\<rparr>"

definition example_grid :: grid where
  "example_grid =
     \<lparr>g_sample_interval = \<lparr>td_days = 0, td_seconds = 600\<rparr>,
      g_min_elevation = 0, g_max_elevation = 20, g_bin_height = 10, g_bin_count = 3\<rparr>"

text \<open>
  Two paths for the example, the second with a seventh character before the extension, and
  a file whose constants segment is cut short after its first comment.
\<close>

definition example_mnd :: string where
  "example_mnd = ''/data/201001/100105.mnd''"

definition augmented_mnd :: string where
  "augmented_mnd = ''/data/201001/100105x.mnd''"

definition broken_file :: "string list" where
  "broken_file = file_lines example_header [''# file information''] example_samples"

text \<open>
  Segments of a file whose third sample has rows 20 m apart, followed by a segment that is
  no sample at all.
\<close>

definition uneven_rows :: "string list" where
  "uneven_rows = [''# z speed error'', ''0 1.5 0'', ''20 2.5 0'', ''40 3.5 0'']"

definition drifting_segments :: "string list list" where
  "drifting_segments =
     [example_header, example_constants,
      ''2010-01-05 00:00:00 00:10:00'' # example_rows,
      ''2010-01-05 00:10:00 00:10:00'' # example_rows,
      ''2010-01-05 00:20:00 00:10:00'' # uneven_rows,
      [''not a sample'']]"

text \<open>The same segments, but with the regular rows in the third sample.\<close>

definition steady_segments :: "string list list" where
  "steady_segments =
     [example_header, example_constants,
      ''2010-01-05 00:00:00 00:10:00'' # example_rows,
      ''2010-01-05 00:10:00 00:10:00'' # example_rows,
      ''2010-01-05 00:20:00 00:10:00'' # example_rows,
      [''not a sample'']]"

text \<open>The example file with other values for its three constants.\<close>

definition other_constants :: "string list" where
  "other_constants =
     [''# file information'',
      ''antenna azimuth angle [deg] : 270'',
      ''height above ground [m]     : -2'',
      ''height above sea level [m]  : +1500'',
      ''# file type'',
      ''Main Data'',
      ''# variable definitions'',
      ''z # z # m'',
      ''speed # speed # m/s'',
      ''error code # error'',
      ''#'']"

definition other_file :: "string list" where
  "other_file = file_lines example_header other_constants example_samples"

section \<open>Predicates used in the statements\<close>

text \<open>A line of a segment built from the lines \<open>L\<close>: non-empty, the stripped form of one of them.\<close>

definition good_line :: "string set \<Rightarrow> string \<Rightarrow> bool" where
  "good_line L l = (l \<noteq> [] \<and> l \<in> strip ` L)"

text \<open>Lines and segments that the segmenter returns as they are written.\<close>

definition clean_line :: "string \<Rightarrow> bool" where
  "clean_line l = (l \<noteq> [] \<and> \<not> isspace (hd l) \<and> \<not> isspace (last l))"

definition clean_segment :: "string list \<Rightarrow> bool" where
  "clean_segment s = (s \<noteq> [] \<and> list_all clean_line s)"

text \<open>
  A file whose path the header parser appends to \<open>augmented_mnds\<close>: 50 segments, a first
  segment that passes the checks of lines 40-100, and a seventh character of the file name
  that is not the extension separator.
\<close>

definition augmented_file :: "string \<Rightarrow> string list \<Rightarrow> bool" where
  "augmented_file mnd lines =
     (length (segment lines) = 50 \<and>
      (case parse0_checks (hd (segment lines)) mnd of
         Inl e \<Rightarrow> False
       | Inr (stamp, counts, file_extra) \<Rightarrow> file_extra \<noteq> os_extsep))"

text \<open>The format string of the timestamp check, line 194.\<close>

definition mismatch_message :: string where
  "mismatch_message =
     ''Mismatched file start time {0} and sample start time {1} (sample = {2}, interval = {3})''"

text \<open>
  The grid of a file that validates: 50 segments that the three parsers accept. The result
  of the parsers does not depend on the two lists they append to. \<open>last_grid\<close> is the grid
  of the last file of a run that validated.
\<close>

definition file_grid :: "string \<times> string list \<Rightarrow> grid option" where
  "file_grid file =
     (let segments = segment (snd file) in
      if length segments \<noteq> 50 then None
      else (case fst (parse_segments segments (fst file) [] []) of
              Inl e \<Rightarrow> None
            | Inr (segment0, segment1, segment2) \<Rightarrow> Some segment2))"

definition last_grid :: "(string \<times> string list) list \<Rightarrow> grid option" where
  "last_grid files =
     foldl (\<lambda>prev file. case file_grid file of None \<Rightarrow> prev | Some g \<Rightarrow> Some g) None files"


text \<open>
  Two lines that differ at most in the integer value of a labelled constant: the same
  line, or one of the three labels of lines 124-128 followed, in each, by a string that
  \<open>int\<close> accepts.
\<close>

definition constant_labels :: "string list" where
  "constant_labels =
     [''antenna azimuth angle [deg] : '',
      ''height above ground [m]     : '',
      ''height above sea level [m]  : '']"

definition int_literal :: "string \<Rightarrow> bool" where
  "int_literal v = (case py_int v of Inl e \<Rightarrow> False | Inr n \<Rightarrow> True)"

definition same_but_value :: "string \<Rightarrow> string \<Rightarrow> bool" where
  "same_but_value l1 l2 =
     (l1 = l2 \<or>
      list_ex (\<lambda>p. startswith l1 p \<and> startswith l2 p
                  \<and> int_literal (drop (length p) l1) \<and> int_literal (drop (length p) l2))
        constant_labels)"

text \<open>
  Two files with the same path and the same segments, except that the lines of their second
  segments may differ in the values of the labelled constants.
\<close>

definition same_but_constants :: "string \<times> string list \<Rightarrow> string \<times> string list \<Rightarrow> bool" where
  "same_but_constants f1 f2 =
     (fst f1 = fst f2 \<and>
      (case segment (snd f1) of
         h1 # c1 # r1 \<Rightarrow>
           (case segment (snd f2) of
              h2 # c2 # r2 \<Rightarrow> h1 = h2 \<and> r1 = r2 \<and> list_all2 same_but_value c1 c2
            | _ \<Rightarrow> False)
       | s1 \<Rightarrow> segment (snd f2) = s1))"

text \<open>Two states that agree on everything but the constants kept in \<open>prev_segment1\<close>.\<close>

definition agree :: "state \<Rightarrow> state \<Rightarrow> bool" where
  "agree a b =
     (irregular_segments a = irregular_segments b
      \<and> insufficient_segments a = insufficient_segments b
      \<and> inconsistent_segments a = inconsistent_segments b
      \<and> augmented_mnds a = augmented_mnds b
      \<and> incongruent_mnds a = incongruent_mnds b
      \<and> exceptional_mnds a = exceptional_mnds b
      \<and> prev_mnd a = prev_mnd b
      \<and> prev_segment0 a = prev_segment0 b
      \<and> prev_segment2 a = prev_segment2 b)"

text \<open>
  The relations kept by the constants parser on two such segments: the three locals are
  bound in the one exactly when they are in the other, and the cursors are at lines that
  differ at most in such a value.
\<close>

definition locals_rel :: "int option \<times> int option \<times> int option
    \<Rightarrow> int option \<times> int option \<times> int option \<Rightarrow> bool" where
  "locals_rel x y =
     (case (x, y) of
        ((a1, e1, h1), (a2, e2, h2)) \<Rightarrow>
          (a1 = None) = (a2 = None) \<and> (e1 = None) = (e2 = None) \<and> (h1 = None) = (h2 = None))"

definition cursor_rel :: "string \<times> string list \<Rightarrow> string \<times> string list \<Rightarrow> bool" where
  "cursor_rel x y =
     (same_but_value (fst x) (fst y) \<and> list_all2 same_but_value (snd x) (snd y))"

section \<open>Properties of the segmenter\<close>

lemma strip_hd: "strip s \<noteq> [] \<Longrightarrow> \<not> isspace (hd (strip s))"
proof -
  assume ne: "strip s \<noteq> []"
  define t where "t = dropWhile isspace s"
  have st: "strip s = rev (dropWhile isspace (rev t))"
    by (simp add: strip_def t_def)
  from ne st have tne: "t \<noteq> []" by auto
  then obtain x xs where t: "t = x # xs" by (cases t) auto
  have nx: "\<not> isspace x"
    using t hd_dropWhile [of isspace s] tne by (simp add: t_def)
  have "dropWhile isspace (rev xs @ [x]) = dropWhile isspace (rev xs) @ [x]
        \<or> dropWhile isspace (rev xs @ [x]) = [x]"
    using nx by (simp add: dropWhile_append)
  then have "hd (rev (dropWhile isspace (rev t))) = x"
    using t by auto
  with nx st show ?thesis by simp
qed

lemma strip_last: "strip s \<noteq> [] \<Longrightarrow> \<not> isspace (last (strip s))"
proof -
  assume ne: "strip s \<noteq> []"
  define u where "u = dropWhile isspace (rev (dropWhile isspace s))"
  have st: "strip s = rev u" by (simp add: strip_def u_def)
  with ne have une: "u \<noteq> []" by auto
  have "\<not> isspace (hd u)"
    using une hd_dropWhile [of isspace "rev (dropWhile isspace s)"] by (simp add: u_def)
  then show ?thesis using st une by (simp add: last_rev)
qed

lemma segment_loop_inv:
  "segment_loop segs seg lines = (segs', seg') \<Longrightarrow>
   list_all (\<lambda>s. s \<noteq> [] \<and> list_all (good_line L) s) segs \<Longrightarrow>
   list_all (good_line L) seg \<Longrightarrow> set lines \<subseteq> L \<Longrightarrow>
   list_all (\<lambda>s. s \<noteq> [] \<and> list_all (good_line L) s) segs' \<and> list_all (good_line L) seg'"
proof (induction lines arbitrary: segs seg)
  case Nil
  then show ?case by simp
next
  case (Cons line lines)
  have inL: "line \<in> L" and rest: "set lines \<subseteq> L"
    using Cons.prems(4) by auto
  consider (line) "strip line \<noteq> []"
    | (close) "strip line = []" "seg \<noteq> []"
    | (skip) "strip line = []" "seg = []"
    by blast
  then show ?case
  proof cases
    case line
    have step: "segment_loop segs (seg @ [strip line]) lines = (segs', seg')"
      using Cons.prems(1) line by simp
    have "good_line L (strip line)"
      using line inL by (simp add: good_line_def)
    with Cons.prems(3) have "list_all (good_line L) (seg @ [strip line])"
      by simp
    from Cons.IH [OF step Cons.prems(2) this rest] show ?thesis .
  next
    case close
    have step: "segment_loop (segs @ [seg]) [] lines = (segs', seg')"
      using Cons.prems(1) close by simp
    have "list_all (\<lambda>s. s \<noteq> [] \<and> list_all (good_line L) s) (segs @ [seg])"
      using Cons.prems(2,3) close by simp
    from Cons.IH [OF step this _ rest] show ?thesis by simp
  next
    case skip
    have step: "segment_loop segs seg lines = (segs', seg')"
      using Cons.prems(1) skip by simp
    from Cons.IH [OF step Cons.prems(2,3) rest] show ?thesis .
  qed
qed

lemma segment_loop_concat:
  "segment_loop segs seg lines = (segs', seg') \<Longrightarrow>
   concat segs' @ seg' = concat segs @ seg @ filter (\<lambda>l. l \<noteq> []) (map strip lines)"
proof (induction lines arbitrary: segs seg)
  case Nil
  then show ?case by simp
next
  case (Cons line lines)
  show ?case
  proof (cases "strip line = []")
    case False
    with Cons.prems have "segment_loop segs (seg @ [strip line]) lines = (segs', seg')"
      by simp
    from Cons.IH [OF this] False show ?thesis by simp
  next
    case True
    show ?thesis
    proof (cases "seg = []")
      case True
      with \<open>strip line = []\<close> Cons.prems have "segment_loop segs seg lines = (segs', seg')"
        by simp
      from Cons.IH [OF this] \<open>strip line = []\<close> show ?thesis by simp
    next
      case False
      with \<open>strip line = []\<close> Cons.prems
      have "segment_loop (segs @ [seg]) [] lines = (segs', seg')" by simp
      from Cons.IH [OF this] \<open>strip line = []\<close> show ?thesis by simp
    qed
  qed
qed

lemma segment_good:
  "list_all (\<lambda>s. s \<noteq> [] \<and> list_all (good_line (set lines)) s) (segment lines)"
proof -
  obtain segs seg where loop: "segment_loop [] [] lines = (segs, seg)"
    by (cases "segment_loop [] [] lines") auto
  have "list_all (\<lambda>s. s \<noteq> [] \<and> list_all (good_line (set lines)) s) segs
        \<and> list_all (good_line (set lines)) seg"
    by (rule segment_loop_inv [OF loop]) simp_all
  then show ?thesis
    by (simp add: segment_def loop)
qed

lemma segment_concat: "concat (segment lines) = filter (\<lambda>l. l \<noteq> []) (map strip lines)"
proof -
  obtain segs seg where loop: "segment_loop [] [] lines = (segs, seg)"
    by (cases "segment_loop [] [] lines") auto
  from segment_loop_concat [OF loop] show ?thesis
    by (cases "seg = []") (simp_all add: segment_def loop)
qed

text \<open>
  C8. Every segment returned by \<open>segment\<close> is non-empty, and every line of it is the
  stripped form of an input line, is non-empty and neither starts nor ends with a whitespace
  character; so blank lines, consecutive or trailing, never leave an empty segment. No
  non-blank line is lost: the segments, concatenated, are the stripped non-blank input
  lines in order.
\<close>

theorem segment_nonempty_trimmed:
  "(\<forall>s \<in> set (segment lines). s \<noteq> [] \<and>
      (\<forall>l \<in> set s. l \<in> strip ` set lines \<and> l \<noteq> [] \<and> \<not> isspace (hd l) \<and> \<not> isspace (last l)))
   \<and> concat (segment lines) = filter (\<lambda>l. l \<noteq> []) (map strip lines)"
proof (intro conjI ballI)
  fix s assume s: "s \<in> set (segment lines)"
  with segment_good [of lines] have good: "s \<noteq> [] \<and> list_all (good_line (set lines)) s"
    by (simp add: list_all_iff)
  then show "s \<noteq> []" by simp
  fix l assume "l \<in> set s"
  with good have gl: "good_line (set lines) l"
    by (simp add: list_all_iff)
  then obtain r where r: "l = strip r" "r \<in> set lines" "strip r \<noteq> []"
    by (auto simp: good_line_def)
  show "l \<in> strip ` set lines" using r by simp
  show "l \<noteq> []" using r by simp
  show "\<not> isspace (hd l)" using r strip_hd by simp
  show "\<not> isspace (last l)" using r strip_last by simp
next
  show "concat (segment lines) = filter (\<lambda>l. l \<noteq> []) (map strip lines)"
    by (rule segment_concat)
qed

theorem segment_nonempty_trimmed_witness:
  "segment [''a  '' @ [CHR 0x0A], [CHR 0x0A], [CHR 0x0A], ''  b c'' @ [CHR 0x0A],
            ''d'', '' '' @ [CHR 0x0A], [CHR 0x0A]] = [[''a''], [''b c'', ''d'']]
   \<and> \<not> isspace (hd ''b c'') \<and> \<not> isspace (last ''b c'')"
  using segment_nonempty_trimmed [of "[''a  '' @ [CHR 0x0A], [CHR 0x0A], [CHR 0x0A],
            ''  b c'' @ [CHR 0x0A], ''d'', '' '' @ [CHR 0x0A], [CHR 0x0A]]"]
  by (simp add: segment_def strip_def isspace_def)

section \<open>Segmenting a file written segment by segment\<close>

lemma strip_raw_line: "clean_line l \<Longrightarrow> strip (l @ [CHR 0x0A]) = l"
proof -
  assume c: "clean_line l"
  then obtain x xs where l: "l = x # xs" and x: "\<not> isspace x"
    by (cases l) (auto simp: clean_line_def)
  from c have lst: "\<not> isspace (last l)" and ne: "l \<noteq> []"
    by (auto simp: clean_line_def)
  have 1: "dropWhile isspace (l @ [CHR 0x0A]) = l @ [CHR 0x0A]"
    using l x by simp
  obtain y ys where r: "rev l = y # ys"
    using ne by (cases "rev l") auto
  have "hd (rev l) = last l" using ne by (simp add: hd_rev)
  with r lst have "\<not> isspace y" by simp
  then have 2: "dropWhile isspace (rev l) = rev l"
    by (simp add: r)
  have 3: "isspace (CHR 0x0A)" by (simp add: isspace_def)
  show ?thesis
    by (simp add: strip_def 1 2 3)
qed

lemma strip_line_feed: "strip [CHR 0x0A] = []"
  by (simp add: strip_def isspace_def)

lemma segment_loop_raw:
  "list_all clean_line s \<Longrightarrow>
   segment_loop segs cur (raw s @ rest) = segment_loop segs (cur @ s) rest"
proof (induction s arbitrary: cur)
  case Nil
  then show ?case by (simp add: raw_def)
next
  case (Cons l s)
  then have l: "clean_line l" and s: "list_all clean_line s" by simp_all
  have "segment_loop segs cur (raw (l # s) @ rest)
        = segment_loop segs (cur @ [l]) (raw s @ rest)"
    using l strip_raw_line [OF l] by (simp add: raw_def clean_line_def)
  also have "\<dots> = segment_loop segs ((cur @ [l]) @ s) rest"
    by (rule Cons.IH [OF s])
  finally show ?case by simp
qed

lemma segment_loop_blank:
  "segment_loop segs cur ([CHR 0x0A] # rest) =
     (if cur \<noteq> [] then segment_loop (segs @ [cur]) [] rest else segment_loop segs cur rest)"
  by (simp add: strip_line_feed)

lemma segment_loop_samples:
  "list_all clean_segment samples \<Longrightarrow>
   segment_loop segs [] (concat (map (\<lambda>s. raw s @ [[CHR 0x0A]]) samples)) = (segs @ samples, [])"
proof (induction samples arbitrary: segs)
  case Nil
  then show ?case by simp
next
  case (Cons s samples)
  then have cs: "clean_segment s" and rest: "list_all clean_segment samples"
    by simp_all
  from cs have s: "s \<noteq> []" "list_all clean_line s"
    by (simp_all add: clean_segment_def)
  have "segment_loop segs [] (concat (map (\<lambda>s. raw s @ [[CHR 0x0A]]) (s # samples)))
        = segment_loop segs [] (raw s @ [CHR 0x0A] # concat (map (\<lambda>s. raw s @ [[CHR 0x0A]]) samples))"
    by simp
  also have "\<dots> = segment_loop segs s ([CHR 0x0A] # concat (map (\<lambda>s. raw s @ [[CHR 0x0A]]) samples))"
    using segment_loop_raw [OF s(2), of segs "[]"] by simp
  also have "\<dots> = segment_loop (segs @ [s]) [] (concat (map (\<lambda>s. raw s @ [[CHR 0x0A]]) samples))"
    using s(1) by (simp add: segment_loop_blank del: segment_loop.simps)
  also have "\<dots> = ((segs @ [s]) @ samples, [])"
    by (rule Cons.IH [OF rest])
  finally show ?case by simp
qed

lemma file_lines_unfold:
  "file_lines hdr consts samples =
     raw hdr @ [CHR 0x0A] # raw consts @ [CHR 0x0A] # [CHR 0x0A] #
       concat (map (\<lambda>s. raw s @ [[CHR 0x0A]]) samples)"
  by (simp add: file_lines_def raw_def map_concat comp_def)

lemma segment_file_lines:
  assumes "clean_segment hdr" "clean_segment consts" "list_all clean_segment samples"
  shows "segment (file_lines hdr consts samples) = hdr # consts # samples"
proof -
  let ?tail = "concat (map (\<lambda>s. raw s @ [[CHR 0x0A]]) samples)"
  from assms have h: "hdr \<noteq> []" "list_all clean_line hdr"
    and c: "consts \<noteq> []" "list_all clean_line consts"
    by (simp_all add: clean_segment_def)
  have "segment_loop [] [] (file_lines hdr consts samples)
        = segment_loop [] hdr ([CHR 0x0A] # raw consts @ [CHR 0x0A] # [CHR 0x0A] # ?tail)"
    using segment_loop_raw [OF h(2), of "[]" "[]"] by (simp add: file_lines_unfold)
  also have "\<dots> = segment_loop [hdr] [] (raw consts @ [CHR 0x0A] # [CHR 0x0A] # ?tail)"
    using h(1) by (simp add: segment_loop_blank del: segment_loop.simps)
  also have "\<dots> = segment_loop [hdr] consts ([CHR 0x0A] # [CHR 0x0A] # ?tail)"
    using segment_loop_raw [OF c(2), of "[hdr]" "[]"] by simp
  also have "\<dots> = segment_loop [hdr, consts] [] ([CHR 0x0A] # ?tail)"
    using c(1) by (simp add: segment_loop_blank del: segment_loop.simps)
  also have "\<dots> = segment_loop [hdr, consts] [] ?tail"
    by (simp add: segment_loop_blank del: segment_loop.simps)
  also have "\<dots> = ([hdr, consts] @ samples, [])"
    by (rule segment_loop_samples [OF assms(3)])
  finally show ?thesis by (simp add: segment_def)
qed

lemma example_clean:
  "clean_segment example_header" "clean_segment example_constants"
  "list_all clean_segment example_samples"
  by code_simp+

lemma segment_example_file:
  "segment example_file = example_header # example_constants # example_samples"
  unfolding example_file_def by (rule segment_file_lines [OF example_clean])

section \<open>Effects of the parsers on the two lists\<close>

lemma bind_e_Inl [simp]: "bind_e (Inl e) f = Inl e"
  by (simp add: bind_e_def)

lemma bind_e_Inr [simp]: "bind_e (Inr x) f = f x"
  by (simp add: bind_e_def)

lemma bind_e_eq_Inr: "bind_e m f = Inr y \<longleftrightarrow> (\<exists>x. m = Inr x \<and> f x = Inr y)"
  by (cases m) auto

lemma parse0_augmented:
  "snd (parse0 seg mnd augmenteds) =
     (case parse0_checks seg mnd of
        Inl e \<Rightarrow> augmenteds
      | Inr (stamp, counts, file_extra) \<Rightarrow>
          if file_extra \<noteq> os_extsep then augmenteds @ [mnd] else augmenteds)"
  by (simp add: parse0_def Let_def split: sum.splits prod.splits)

lemma parse0_result:
  "fst (parse0 seg mnd augmenteds) = fst (parse0 seg mnd [])"
  by (simp add: parse0_def Let_def split: sum.splits prod.splits)

lemma parse2_loop_inconsistent:
  "parse2_loop i segs mnd segment0 segment1 segment2 inconsistents = (Inl e, inconsistents')
   \<Longrightarrow> inconsistents' = inconsistents"
proof (induction segs arbitrary: i)
  case Nil
  then show ?case by simp
next
  case (Cons seg segs)
  then show ?case
    by (cases "parse2_sample i seg mnd segment0 segment1") (auto split: if_splits)
qed

lemma parse2_inconsistent:
  "parse2 segments mnd segment0 segment1 inconsistents = (Inl e, inconsistents')
   \<Longrightarrow> inconsistents' = inconsistents"
  by (auto simp: parse2_def split: sum.splits dest: parse2_loop_inconsistent)

lemma parse_segments_failure:
  assumes "parse_segments segments mnd augmenteds inconsistents = (Inl e, augmenteds', inconsistents')"
  shows "inconsistents' = inconsistents"
    and "augmenteds' = augmenteds \<or> augmenteds' = augmenteds @ [mnd]"
proof -
  have aug: "snd (parse0 seg mnd augmenteds) = augmenteds
             \<or> snd (parse0 seg mnd augmenteds) = augmenteds @ [mnd]" for seg
    by (simp add: parse0_augmented split: sum.splits prod.splits)
  show "inconsistents' = inconsistents"
    using assms
    by (auto simp: parse_segments_def split: sum.splits prod.splits dest: parse2_inconsistent)
  show "augmenteds' = augmenteds \<or> augmenteds' = augmenteds @ [mnd]"
  proof (cases "nth_e segments 0")
    case (Inl e0)
    with assms show ?thesis by (simp add: parse_segments_def)
  next
    case (Inr seg0)
    obtain r0 a0 where p0: "parse0 seg0 mnd augmenteds = (r0, a0)"
      by (cases "parse0 seg0 mnd augmenteds") auto
    have "augmenteds' = a0"
      using assms Inr p0
      by (auto simp: parse_segments_def split: sum.splits prod.splits)
    with aug [of seg0] p0 show ?thesis by simp
  qed
qed


section \<open>One file: irregular counts, failures, augmented names\<close>

lemma if_Inl_eq_Inr: "((if c then Inl e else m) = Inr y) = (\<not> c \<and> m = Inr y)"
  by simp

lemma parse0_checks_path:
  assumes "parse0_checks seg mnd = Inr (stamp, counts, file_extra)"
  shows "\<exists>mnd_dir mnd_file c. unpack2 (lastn 2 (split_sep mnd os_sep)) = Inr (mnd_dir, mnd_file)
           \<and> nth_e mnd_file 6 = Inr c \<and> file_extra = [c]"
  using assms
  unfolding parse0_checks_def
  by (simp add: bind_e_eq_Inr if_Inl_eq_Inr Let_def split_paired_all split_paired_Ex
           del: split_paired_All) blast


lemma unpack2_last: "unpack2 (lastn 2 xs) = Inr (a, b) \<Longrightarrow> b = last xs \<and> 2 \<le> length xs"
proof -
  assume u: "unpack2 (lastn 2 xs) = Inr (a, b)"
  then have l: "lastn 2 xs = [a, b]"
    by (auto simp: unpack2_def split: list.splits)
  then have len: "2 \<le> length xs"
    by (cases "2 \<le> length xs") (auto simp: lastn_def)
  from l have "drop (length xs - 2) xs = [a, b]" by (simp add: lastn_def)
  then have "last (drop (length xs - 2) xs) = b" by simp
  with len show ?thesis by (simp add: last_drop)
qed

lemma parse0_checks_nonempty_path:
  "parse0_checks seg mnd = Inr v \<Longrightarrow> mnd \<noteq> []"
proof
  assume ok: "parse0_checks seg mnd = Inr v" and e: "mnd = []"
  obtain stamp counts file_extra where v: "v = (stamp, counts, file_extra)"
    by (cases v) auto
  from parse0_checks_path [OF ok [unfolded v]] obtain a b
    where "unpack2 (lastn 2 (split_sep mnd os_sep)) = Inr (a, b)" by blast
  from unpack2_last [OF this] have "2 \<le> length (split_sep mnd os_sep)" by simp
  with e show False by (simp add: split_sep_def)
qed

lemma try_body_irregular:
  "length (segment lines) \<noteq> 50 \<Longrightarrow>
   try_body st mnd lines =
     (None, st\<lparr>irregular_segments := irregular_segments st @ [(mnd, length (segment lines))]\<rparr>)"
  by (simp add: try_body_def Let_def)

lemma try_body_parsed:
  "length (segment lines) = 50 \<Longrightarrow>
   try_body st mnd lines =
     (case parse_segments (segment lines) mnd (augmented_mnds st) (inconsistent_segments st) of
        (Inl e, augmenteds, inconsistents) \<Rightarrow>
          (Some e, st\<lparr>augmented_mnds := augmenteds, inconsistent_segments := inconsistents\<rparr>)
      | (Inr (segment0, segment1, segment2), augmenteds, inconsistents) \<Rightarrow>
          (None,
           st\<lparr>augmented_mnds := augmenteds,
              inconsistent_segments := inconsistents,
              incongruent_mnds :=
                (if truthy (prev_mnd st) then
                   (if Some segment2 \<noteq> prev_segment2 st
                    then incongruent_mnds st @ [(mnd, segment2)]
                    else incongruent_mnds st)
                 else incongruent_mnds st @ [(mnd, segment2)]),
              prev_mnd := Some mnd,
              prev_segment0 := Some segment0,
              prev_segment1 := Some segment1,
              prev_segment2 := Some segment2\<rparr>))"
  by (simp add: try_body_def Let_def)

lemma try_body_failure:
  assumes "fst (try_body st mnd lines) = Some e"
  shows "\<exists>augmenteds.
           (augmenteds = augmented_mnds st \<or> augmenteds = augmented_mnds st @ [mnd])
           \<and> try_body st mnd lines = (Some e, st\<lparr>augmented_mnds := augmenteds\<rparr>)"
proof -
  have len: "length (segment lines) = 50"
    using assms try_body_irregular [of lines st mnd] by (cases "length (segment lines) = 50") auto
  obtain r augmenteds inconsistents
    where ps: "parse_segments (segment lines) mnd (augmented_mnds st) (inconsistent_segments st)
               = (r, augmenteds, inconsistents)"
    by (cases "parse_segments (segment lines) mnd (augmented_mnds st) (inconsistent_segments st)")
       auto
  from assms have r: "r = Inl e"
    by (cases r) (auto simp: try_body_parsed [OF len] ps split: prod.splits)
  from parse_segments_failure [OF ps [unfolded r]]
  have "inconsistents = inconsistent_segments st"
    and "augmenteds = augmented_mnds st \<or> augmenteds = augmented_mnds st @ [mnd]"
    by simp_all
  then show ?thesis
    by (auto simp: try_body_parsed [OF len] ps r)
qed

text \<open>
  C2. A file whose segment count is not 50 changes the state in one place only: the pair
  of its path and its count is appended to \<open>irregular_segments\<close>. No parser is run; the
  other five lists and the rolling state are as before. The branch for fewer than three
  segments is never taken: \<open>insufficient_segments\<close> is left as it is by every file.
\<close>

theorem irregular_only:
  "(length (segment lines) \<noteq> 50 \<longrightarrow>
      process_file st (mnd, lines) =
        st\<lparr>irregular_segments := irregular_segments st @ [(mnd, length (segment lines))]\<rparr>)
   \<and> insufficient_segments (process_file st (mnd, lines)) = insufficient_segments st"
proof (intro conjI impI)
  assume "length (segment lines) \<noteq> 50"
  then show "process_file st (mnd, lines) =
        st\<lparr>irregular_segments := irregular_segments st @ [(mnd, length (segment lines))]\<rparr>"
    by (simp add: process_file_def try_body_irregular)
next
  show "insufficient_segments (process_file st (mnd, lines)) = insufficient_segments st"
  proof (cases "length (segment lines) = 50")
    case False
    then show ?thesis by (simp add: process_file_def try_body_irregular)
  next
    case True
    show ?thesis
      by (simp add: process_file_def try_body_parsed [OF True] split: prod.splits sum.splits)
  qed
qed

theorem irregular_only_witness:
  "length (segment (file_lines example_header example_constants (butlast example_samples))) = 49
   \<and> process_file initial_state
         (example_mnd, file_lines example_header example_constants (butlast example_samples))
       = initial_state\<lparr>irregular_segments := [(example_mnd, 49)]\<rparr>
   \<and> length (segment (raw [''FORMAT-1'', [], ''# file information''])) = 2
   \<and> process_file initial_state (example_mnd, raw [''FORMAT-1'', [], ''# file information''])
       = initial_state\<lparr>irregular_segments := [(example_mnd, 2)]\<rparr>
   \<and> insufficient_segments
        (process_file initial_state (example_mnd, raw [''FORMAT-1'', [], ''# file information'']))
       = []"
proof -
  have len: "length (segment (raw [''FORMAT-1'', [], ''# file information''])) = 2"
    by code_simp
  have "list_all clean_segment (butlast example_samples)"
    by code_simp
  from segment_file_lines [OF example_clean(1,2) this]
  have "length (segment (file_lines example_header example_constants (butlast example_samples)))
        = Suc (Suc (length (butlast example_samples)))"
    by simp
  also have "\<dots> = 49" by code_simp
  finally have len49:
    "length (segment (file_lines example_header example_constants (butlast example_samples))) = 49" .
  from irregular_only [of "raw [''FORMAT-1'', [], ''# file information'']" initial_state example_mnd]
    irregular_only [of "file_lines example_header example_constants (butlast example_samples)"
      initial_state example_mnd]
    len len49
  show ?thesis by (simp add: initial_state_def)
qed


lemma length_example_samples: "length example_samples = 48"
  by code_simp

lemma segment_broken_file:
  "segment broken_file = example_header # [''# file information''] # example_samples"
proof -
  have "clean_segment [''# file information'']" by code_simp
  from segment_file_lines [OF example_clean(1) this example_clean(3)]
  show ?thesis by (simp add: broken_file_def)
qed

lemma broken_file_try_body:
  "try_body initial_state augmented_mnd broken_file
     = (Some StopIteration, initial_state\<lparr>augmented_mnds := [augmented_mnd]\<rparr>)"
proof -
  have len: "length (segment broken_file) = 50"
    by (simp add: segment_broken_file length_example_samples)
  have "parse_segments (example_header # [''# file information''] # example_samples)
          augmented_mnd [] [] = (Inl StopIteration, [augmented_mnd], [])"
    by code_simp
  then show ?thesis
    by (simp add: try_body_parsed [OF len] segment_broken_file initial_state_def)
qed

text \<open>
  C1, as stated, fails: the file \<open>broken_file\<close> has 50 segments, a header that passes every
  check and a constants segment that ends before its constants are read, under a file name
  whose seventh character is \<open>x\<close>. It is recorded as exceptional, and the entry that the
  header parser appended to \<open>augmented_mnds\<close> is kept.
\<close>

theorem augmented_entry_survives_failure:
  "exceptional_mnds (process_file initial_state (augmented_mnd, broken_file)) = [augmented_mnd]
   \<and> augmented_mnds (process_file initial_state (augmented_mnd, broken_file)) = [augmented_mnd]
   \<and> augmented_mnds initial_state = []"
  by (simp add: process_file_def broken_file_try_body) (simp add: initial_state_def)

text \<open>
  C1, amended. When an exception leaves the validation of a file, the path of the file is
  appended to \<open>exceptional_mnds\<close> and the loop goes on with the next file; the lists of
  irregular, insufficient, inconsistent and incongruent files and the four \<open>prev_\<close>
  variables are as before the file. The list \<open>augmented_mnds\<close> is as before or has the path
  of the file appended: nothing is rolled back.
\<close>

theorem failure_recorded:
  assumes "fst (try_body st mnd lines) = Some e"
  shows "exceptional_mnds (process_file st (mnd, lines)) = exceptional_mnds st @ [mnd]
     \<and> main_loop st ((mnd, lines) # files) = main_loop (process_file st (mnd, lines)) files
     \<and> irregular_segments (process_file st (mnd, lines)) = irregular_segments st
     \<and> insufficient_segments (process_file st (mnd, lines)) = insufficient_segments st
     \<and> inconsistent_segments (process_file st (mnd, lines)) = inconsistent_segments st
     \<and> incongruent_mnds (process_file st (mnd, lines)) = incongruent_mnds st
     \<and> prev_mnd (process_file st (mnd, lines)) = prev_mnd st
     \<and> prev_segment0 (process_file st (mnd, lines)) = prev_segment0 st
     \<and> prev_segment1 (process_file st (mnd, lines)) = prev_segment1 st
     \<and> prev_segment2 (process_file st (mnd, lines)) = prev_segment2 st
     \<and> (augmented_mnds (process_file st (mnd, lines)) = augmented_mnds st
        \<or> augmented_mnds (process_file st (mnd, lines)) = augmented_mnds st @ [mnd])"
proof -
  from try_body_failure [OF assms] obtain augmenteds
    where aug: "augmenteds = augmented_mnds st \<or> augmenteds = augmented_mnds st @ [mnd]"
      and tb: "try_body st mnd lines = (Some e, st\<lparr>augmented_mnds := augmenteds\<rparr>)"
    by blast
  have pf: "process_file st (mnd, lines)
            = st\<lparr>augmented_mnds := augmenteds, exceptional_mnds := exceptional_mnds st @ [mnd]\<rparr>"
    by (simp add: process_file_def tb)
  have loop: "main_loop st ((mnd, lines) # files) = main_loop (process_file st (mnd, lines)) files"
    by (simp add: main_loop_def)
  from aug show ?thesis
    by (simp add: pf loop)
qed

theorem failure_recorded_witness:
  "fst (try_body initial_state augmented_mnd broken_file) = Some StopIteration
   \<and> exceptional_mnds (process_file initial_state (augmented_mnd, broken_file)) = [augmented_mnd]
   \<and> inconsistent_segments (process_file initial_state (augmented_mnd, broken_file)) = []
   \<and> incongruent_mnds (process_file initial_state (augmented_mnd, broken_file)) = []
   \<and> prev_segment2 (process_file initial_state (augmented_mnd, broken_file)) = None"
proof -
  have f: "fst (try_body initial_state augmented_mnd broken_file) = Some StopIteration"
    by (simp add: broken_file_try_body)
  from failure_recorded [OF f, of "[]"] f show ?thesis
    by (simp add: initial_state_def)
qed

text \<open>
  C9, as stated, fails: a file with no lines, under a file name whose seventh character
  is \<open>x\<close>, is recorded as irregular and is not recorded in \<open>augmented_mnds\<close>.
\<close>

theorem irregular_file_not_augmented:
  "nth_e (last (split_sep augmented_mnd os_sep)) 6 = Inr (CHR ''x'')
   \<and> irregular_segments (process_file initial_state (augmented_mnd, []))
       = [(augmented_mnd, 0)]
   \<and> augmented_mnds (process_file initial_state (augmented_mnd, [])) = []"
proof -
  have 1: "nth_e (last (split_sep augmented_mnd os_sep)) 6 = Inr (CHR ''x'')"
    by code_simp
  have 2: "length (segment []) = 0" by (simp add: segment_def)
  then have "length (segment []) \<noteq> 50" by simp
  from try_body_irregular [OF this, of initial_state augmented_mnd] 1 2 show ?thesis
    by (simp add: process_file_def initial_state_def)
qed

text \<open>
  C9, amended. The path of a file is appended to \<open>augmented_mnds\<close> exactly when the file
  has 50 segments, its first segment passes every string match, number conversion and
  range check of the header parser, and the seventh character of its file name is not the
  extension separator. The append is made whatever comes of the file afterwards; it raises
  nothing. A file with another segment count, or with a header that fails a check, is not
  recorded, whatever its name.
\<close>

theorem augmented_recorded:
  "augmented_mnds (process_file st (mnd, lines))
     = (if augmented_file mnd lines then augmented_mnds st @ [mnd] else augmented_mnds st)
   \<and> (augmented_file mnd lines \<longrightarrow>
        length (segment lines) = 50
        \<and> (\<exists>c. nth_e (last (split_sep mnd os_sep)) 6 = Inr c \<and> [c] \<noteq> os_extsep))"
proof (intro conjI impI)
  show "augmented_mnds (process_file st (mnd, lines))
     = (if augmented_file mnd lines then augmented_mnds st @ [mnd] else augmented_mnds st)"
  proof (cases "length (segment lines) = 50")
    case False
    then show ?thesis
      by (simp add: process_file_def try_body_irregular augmented_file_def)
  next
    case True
    then obtain seg0 rest where segs: "segment lines = seg0 # rest"
      by (cases "segment lines") auto
    have n0: "nth_e (seg0 # rest) 0 = Inr seg0" by (simp add: nth_e_def)
    obtain r0 a0 where p0: "parse0 seg0 mnd (augmented_mnds st) = (r0, a0)"
      by (cases "parse0 seg0 mnd (augmented_mnds st)") auto
    have a0: "a0 = (case parse0_checks seg0 mnd of
                      Inl e \<Rightarrow> augmented_mnds st
                    | Inr (stamp, counts, file_extra) \<Rightarrow>
                        if file_extra \<noteq> os_extsep then augmented_mnds st @ [mnd]
                        else augmented_mnds st)"
      using parse0_augmented [of seg0 mnd "augmented_mnds st"] p0 by simp
    obtain r a b
      where ps: "parse_segments (seg0 # rest) mnd (augmented_mnds st) (inconsistent_segments st)
                 = (r, a, b)"
      by (cases "parse_segments (seg0 # rest) mnd (augmented_mnds st) (inconsistent_segments st)")
         auto
    then have "a = a0"
      by (auto simp: parse_segments_def n0 p0 split: sum.splits prod.splits)
    then have "augmented_mnds (process_file st (mnd, lines)) = a0"
      by (cases r) (auto simp: process_file_def try_body_parsed [OF True] segs ps)
    then show ?thesis
      using True by (simp add: a0 augmented_file_def segs split: sum.splits prod.splits)
  qed
next
  assume a: "augmented_file mnd lines"
  then show "length (segment lines) = 50" by (simp add: augmented_file_def)
  from a obtain stamp counts file_extra
    where ok: "parse0_checks (hd (segment lines)) mnd = Inr (stamp, counts, file_extra)"
      and fe: "file_extra \<noteq> os_extsep"
    by (auto simp: augmented_file_def split: sum.splits prod.splits)
  from parse0_checks_path [OF ok] obtain mnd_dir mnd_file c
    where u: "unpack2 (lastn 2 (split_sep mnd os_sep)) = Inr (mnd_dir, mnd_file)"
      and c: "nth_e mnd_file 6 = Inr c" "file_extra = [c]"
    by blast
  from unpack2_last [OF u] have "mnd_file = last (split_sep mnd os_sep)" by simp
  with c fe show "\<exists>c. nth_e (last (split_sep mnd os_sep)) 6 = Inr c \<and> [c] \<noteq> os_extsep"
    by auto
qed

theorem augmented_recorded_witness:
  "augmented_file augmented_mnd broken_file
   \<and> augmented_mnds (process_file initial_state (augmented_mnd, broken_file)) = [augmented_mnd]
   \<and> nth_e (last (split_sep augmented_mnd os_sep)) 6 = Inr (CHR ''x'')
   \<and> \<not> augmented_file example_mnd broken_file
   \<and> augmented_mnds (process_file initial_state (example_mnd, broken_file)) = []"
proof -
  have len: "length (segment broken_file) = 50"
    by (simp add: segment_broken_file length_example_samples)
  have "parse0_checks example_header augmented_mnd
          = Inr ((2010, 1, 5, 0, 0, 0), (1, 2, 2, 3), ''x'')"
    by code_simp
  then have a: "augmented_file augmented_mnd broken_file"
    by (simp add: augmented_file_def segment_broken_file length_example_samples os_extsep_def)
  have "parse0_checks example_header example_mnd
          = Inr ((2010, 1, 5, 0, 0, 0), (1, 2, 2, 3), ''.'')"
    by code_simp
  then have b: "\<not> augmented_file example_mnd broken_file"
    by (simp add: augmented_file_def segment_broken_file length_example_samples os_extsep_def)
  have c: "nth_e (last (split_sep augmented_mnd os_sep)) 6 = Inr (CHR ''x'')"
    by code_simp
  from augmented_recorded [of initial_state augmented_mnd broken_file]
    augmented_recorded [of initial_state example_mnd broken_file] a b c
  show ?thesis by (simp add: initial_state_def)
qed


section \<open>Samples: the canonical grid, the timestamp check, the range and row checks\<close>

lemma parse2_loop_all_canonical:
  "(\<forall>k < length segs. parse2_sample (i + int k) (segs ! k) mnd s0 s1 = Inr c) \<Longrightarrow>
   parse2_loop i segs mnd s0 s1 c inc = (Inr c, inc)"
proof (induction segs arbitrary: i)
  case Nil
  then show ?case by simp
next
  case (Cons seg segs)
  from Cons.prems have first: "parse2_sample i seg mnd s0 s1 = Inr c"
    by fastforce
  have "\<forall>k < length segs. parse2_sample (i + 1 + int k) (segs ! k) mnd s0 s1 = Inr c"
  proof (intro allI impI)
    fix k assume "k < length segs"
    with Cons.prems have "parse2_sample (i + int (Suc k)) ((seg # segs) ! Suc k) mnd s0 s1 = Inr c"
      by (metis Suc_less_eq length_Cons)
    then show "parse2_sample (i + 1 + int k) (segs ! k) mnd s0 s1 = Inr c"
      by (simp add: add.assoc)
  qed
  from Cons.IH [OF this] first show ?case by simp
qed

lemma parse2_loop_first_mismatch:
  "(\<forall>k < length segs. parse2_sample (i + int k) (segs ! k) mnd s0 s1 = Inr c) \<Longrightarrow>
   parse2_sample (i + int (length segs)) seg mnd s0 s1 = Inr g \<Longrightarrow> g \<noteq> c \<Longrightarrow>
   parse2_loop i (segs @ seg # others) mnd s0 s1 c inc
     = (Inr c, inc @ [(i + int (length segs), mnd)])"
proof (induction segs arbitrary: i)
  case Nil
  then show ?case by simp
next
  case (Cons a segs)
  from Cons.prems(1) have first: "parse2_sample i a mnd s0 s1 = Inr c"
    by fastforce
  have rest: "\<forall>k < length segs. parse2_sample (i + 1 + int k) (segs ! k) mnd s0 s1 = Inr c"
  proof (intro allI impI)
    fix k assume "k < length segs"
    with Cons.prems(1) have "parse2_sample (i + int (Suc k)) ((a # segs) ! Suc k) mnd s0 s1 = Inr c"
      by (metis Suc_less_eq length_Cons)
    then show "parse2_sample (i + 1 + int k) (segs ! k) mnd s0 s1 = Inr c"
      by (simp add: add.assoc)
  qed
  have "parse2_sample (i + 1 + int (length segs)) seg mnd s0 s1 = Inr g"
    using Cons.prems(2) by (simp add: add.assoc)
  from Cons.IH [OF rest this Cons.prems(3)] first show ?case
    by (simp add: add.assoc)
qed

lemma parse2_loop_returns:
  "parse2_loop i segs mnd s0 s1 c inc = (Inr r, inc') \<Longrightarrow>
   r = c \<and> (inc' = inc \<or> (\<exists>j. inc' = inc @ [(j, mnd)]))"
proof (induction segs arbitrary: i)
  case Nil
  then show ?case by simp
next
  case (Cons seg segs)
  then show ?case
    by (cases "parse2_sample i seg mnd s0 s1") (auto split: if_splits)
qed


text \<open>
  C5, as stated, fails. It says that after the first mismatch the parsing of the remaining
  samples is not aborted. In \<open>drifting_segments\<close> sample 2 gives another grid and the segment
  after it is no sample: parsed as sample 3 it raises \<open>ValueError\<close>, and in \<open>steady_segments\<close>,
  where sample 2 gives the canonical grid, it makes \<open>parse2\<close> raise that error. With the
  mismatch before it, \<open>parse2\<close> returns the canonical grid and the one entry: the \<open>break\<close>
  ends the parsing of the remaining samples together with their comparison.
\<close>

theorem remaining_samples_not_parsed:
  "parse2_sample 3 [''not a sample''] example_mnd example_segment0 example_segment1
     = Inl ValueError
   \<and> parse2 steady_segments example_mnd example_segment0 example_segment1 []
       = (Inl ValueError, [])
   \<and> parse2 drifting_segments example_mnd example_segment0 example_segment1 []
       = (Inr example_grid, [(2, example_mnd)])"
  by code_simp


text \<open>
  C5, amended. The grid of sample 0 (segment 2) is the canonical grid. When the samples after it
  all give that grid, \<open>parse2\<close> returns it and records nothing. When samples 1 to \<open>n\<close> give
  it and sample \<open>n + 1\<close> gives another grid, \<open>parse2\<close> returns the canonical grid and appends
  the one entry \<open>(n + 1, mnd)\<close>, whatever segments follow: they are neither compared nor
  parsed. Whenever \<open>parse2\<close> returns, it returns the canonical grid, with at most one entry
  appended.
\<close>

theorem parse2_canonical:
  assumes "parse2_sample 0 sample0 mnd s0 s1 = Inr canonical"
    and "\<forall>k < length same. parse2_sample (1 + int k) (same ! k) mnd s0 s1 = Inr canonical"
  shows "parse2 (seg0 # seg1 # sample0 # same) mnd s0 s1 inc = (Inr canonical, inc)
     \<and> (parse2_sample (1 + int (length same)) drifted mnd s0 s1 = Inr g \<and> g \<noteq> canonical \<longrightarrow>
          parse2 (seg0 # seg1 # sample0 # same @ drifted # others) mnd s0 s1 inc
            = (Inr canonical, inc @ [(1 + int (length same), mnd)]))
     \<and> (\<forall>later r inc'.
          parse2 (seg0 # seg1 # sample0 # later) mnd s0 s1 inc = (Inr r, inc') \<longrightarrow>
          r = canonical \<and> (inc' = inc \<or> (\<exists>j. inc' = inc @ [(j, mnd)])))"
proof (intro conjI impI allI)
  have n2: "nth_e (seg0 # seg1 # sample0 # xs) 2 = Inr sample0" for xs
    by (simp add: nth_e_def)
  show "parse2 (seg0 # seg1 # sample0 # same) mnd s0 s1 inc = (Inr canonical, inc)"
    using parse2_loop_all_canonical [OF assms(2), of inc]
    by (simp add: parse2_def n2 assms(1))
  show "parse2 (seg0 # seg1 # sample0 # same @ drifted # others) mnd s0 s1 inc
            = (Inr canonical, inc @ [(1 + int (length same), mnd)])"
    if "parse2_sample (1 + int (length same)) drifted mnd s0 s1 = Inr g \<and> g \<noteq> canonical"
    using parse2_loop_first_mismatch [OF assms(2), of drifted g others inc] that
    by (simp add: parse2_def n2 assms(1))
  show "r = canonical" and "inc' = inc \<or> (\<exists>j. inc' = inc @ [(j, mnd)])"
    if "parse2 (seg0 # seg1 # sample0 # later) mnd s0 s1 inc = (Inr r, inc')" for later r inc'
    using that parse2_loop_returns [of 1 later mnd s0 s1 canonical inc r inc']
    by (simp_all add: parse2_def n2 assms(1))
qed

theorem parse2_canonical_witness:
  "parse2_sample 0 (''2010-01-05 00:00:00 00:10:00'' # example_rows)
     example_mnd example_segment0 example_segment1 = Inr example_grid
   \<and> parse2_sample 2 (''2010-01-05 00:20:00 00:10:00'' # uneven_rows)
       example_mnd example_segment0 example_segment1
       = Inr (example_grid\<lparr>g_max_elevation := 40, g_bin_height := 20\<rparr>)
   \<and> parse2 drifting_segments example_mnd example_segment0 example_segment1 []
       = (Inr example_grid, [(2, example_mnd)])"
proof -
  have h0: "parse2_sample 0 (''2010-01-05 00:00:00 00:10:00'' # example_rows)
              example_mnd example_segment0 example_segment1 = Inr example_grid"
    by code_simp
  have h1: "parse2_sample 1 (''2010-01-05 00:10:00 00:10:00'' # example_rows)
              example_mnd example_segment0 example_segment1 = Inr example_grid"
    by code_simp
  have h2: "parse2_sample 2 (''2010-01-05 00:20:00 00:10:00'' # uneven_rows)
              example_mnd example_segment0 example_segment1
            = Inr (example_grid\<lparr>g_max_elevation := 40, g_bin_height := 20\<rparr>)"
    by code_simp
  have ne: "example_grid\<lparr>g_max_elevation := 40, g_bin_height := 20\<rparr> \<noteq> example_grid"
    by (simp add: example_grid_def)
  have same: "\<forall>k < length [''2010-01-05 00:10:00 00:10:00'' # example_rows].
                parse2_sample (1 + int k) ([''2010-01-05 00:10:00 00:10:00'' # example_rows] ! k)
                  example_mnd example_segment0 example_segment1 = Inr example_grid"
    using h1 by simp
  from parse2_canonical [OF h0 same, of example_header example_constants "[]"
      "''2010-01-05 00:20:00 00:10:00'' # uneven_rows"
      "example_grid\<lparr>g_max_elevation := 40, g_bin_height := 20\<rparr>" "[[''not a sample'']]"]
    h0 h2 ne
  show ?thesis by (simp add: drifting_segments_def)
qed


lemma td_of_seconds_seconds: "td_of_seconds t = Inr delta \<Longrightarrow> td_seconds delta = t mod 86400"
  by (auto simp: td_of_seconds_def split: if_splits)

text \<open>
  C3, as stated, fails on the last item of the message. For a sample at index 1 with the
  interval \<open>24:00:00\<close> (which passes the range checks) and a stamp one second late, the
  mismatch is raised with the index, and the number it carries for the interval is 0: the
  \<open>seconds\<close> field of the normalised interval, whose length is 86400 seconds.
\<close>

theorem mismatch_message_drops_days:
  "parse2_sample 1 (''2010-01-06 00:00:01 24:00:00'' # example_rows)
     example_mnd example_segment0 example_segment1
     = Inl (ParseError mismatch_message
             [FTime (h_start_stamp example_segment0),
              FTime \<lparr>dt_year = 2010, dt_month = 1, dt_day = 6,
                     dt_hour = 0, dt_minute = 0, dt_second = 1\<rparr>,
              FInt 1, FInt 0])
   \<and> timedelta_new 24 0 0 = Inr \<lparr>td_days = 1, td_seconds = 0\<rparr>
   \<and> total_seconds \<lparr>td_days = 1, td_seconds = 0\<rparr> = 86400"
  by code_simp

lemma check_stamp_accepts:
  assumes "check_stamp index segment0 ((y, mo, d, h, mi, s), (sh, sm, ss)) = Inr delta"
  shows "\<exists>stamp. datetime_new y mo d h mi s = Inr stamp
           \<and> timedelta_new sh sm ss = Inr delta
           \<and> bind_e (td_mul index delta) (datetime_add (h_start_stamp segment0)) = Inr stamp"
  using assms
  by (auto simp: check_stamp_def bind_e_eq_Inr split: if_splits)

text \<open>
  C3, amended. A sample that \<open>_parse2\<close> accepts has a first line that passes lines 166-188
  (a date, a time and an interval of three numbers each, within the range checks), and its
  stamp is exactly the start of the file plus \<open>index\<close> times its interval. Conversely, take
  a sample whose first line passes lines 166-188, whose date and time make a \<open>datetime\<close>,
  and for which the start of the file plus \<open>index\<close> intervals can be computed. If its stamp
  is not exactly that instant, \<open>_parse2\<close> raises the mismatch error, which carries the start
  of the file, the stamp of the sample, the index, and the \<open>seconds\<close> field of the interval:
  the interval in seconds modulo 86400, which is the interval in seconds only for an
  interval from 0 to less than a day.
\<close>

theorem timestamp_identity:
  "(\<forall>g. parse2_sample index seg mnd segment0 segment1 = Inr g \<longrightarrow>
      (\<exists>y mo d h mi s sh sm ss stamp.
          sample_fields seg = Inr ((y, mo, d, h, mi, s), (sh, sm, ss))
          \<and> datetime_new y mo d h mi s = Inr stamp
          \<and> timedelta_new sh sm ss = Inr (g_sample_interval g)
          \<and> bind_e (td_mul index (g_sample_interval g)) (datetime_add (h_start_stamp segment0))
              = Inr stamp))
   \<and> (\<forall>y mo d h mi s sh sm ss stamp delta expected.
        sample_fields seg = Inr ((y, mo, d, h, mi, s), (sh, sm, ss))
        \<and> datetime_new y mo d h mi s = Inr stamp
        \<and> timedelta_new sh sm ss = Inr delta
        \<and> bind_e (td_mul index delta) (datetime_add (h_start_stamp segment0)) = Inr expected
        \<and> stamp \<noteq> expected \<longrightarrow>
        parse2_sample index seg mnd segment0 segment1
          = Inl (ParseError mismatch_message
                  [FTime (h_start_stamp segment0), FTime stamp, FInt index,
                   FInt ((sh * 3600 + sm * 60 + ss) mod 86400)]))"
proof (intro conjI allI impI)
  fix g assume ok: "parse2_sample index seg mnd segment0 segment1 = Inr g"
  then obtain numbers delta where nums: "sample_fields seg = Inr numbers"
    and cs: "check_stamp index segment0 numbers = Inr delta"
    and g: "g_sample_interval g = delta"
    by (auto simp: parse2_sample_def bind_e_eq_Inr)
  obtain y mo d h mi s sh sm ss where n: "numbers = ((y, mo, d, h, mi, s), (sh, sm, ss))"
    by (cases numbers) auto
  from check_stamp_accepts [OF cs [unfolded n]] nums n g
  show "\<exists>y mo d h mi s sh sm ss stamp.
          sample_fields seg = Inr ((y, mo, d, h, mi, s), (sh, sm, ss))
          \<and> datetime_new y mo d h mi s = Inr stamp
          \<and> timedelta_new sh sm ss = Inr (g_sample_interval g)
          \<and> bind_e (td_mul index (g_sample_interval g)) (datetime_add (h_start_stamp segment0))
              = Inr stamp"
    by blast
next
  fix y mo d h mi s sh sm ss stamp delta expected
  assume a: "sample_fields seg = Inr ((y, mo, d, h, mi, s), (sh, sm, ss))
        \<and> datetime_new y mo d h mi s = Inr stamp
        \<and> timedelta_new sh sm ss = Inr delta
        \<and> bind_e (td_mul index delta) (datetime_add (h_start_stamp segment0)) = Inr expected
        \<and> stamp \<noteq> expected"
  then have secs: "td_seconds delta = (sh * 3600 + sm * 60 + ss) mod 86400"
    by (simp add: timedelta_new_def td_of_seconds_seconds)
  from a have cs: "check_stamp index segment0 ((y, mo, d, h, mi, s), (sh, sm, ss))
            = Inl (ParseError mismatch_message
                    [FTime (h_start_stamp segment0), FTime stamp, FInt index,
                     FInt ((sh * 3600 + sm * 60 + ss) mod 86400)])"
    by (simp add: check_stamp_def secs mismatch_message_def)
  from a show "parse2_sample index seg mnd segment0 segment1
          = Inl (ParseError mismatch_message
                  [FTime (h_start_stamp segment0), FTime stamp, FInt index,
                   FInt ((sh * 3600 + sm * 60 + ss) mod 86400)])"
    by (simp add: parse2_sample_def cs)
qed

theorem timestamp_identity_witness:
  "parse2_sample 1 (''2010-01-05 00:10:00 00:10:00'' # example_rows)
     example_mnd example_segment0 example_segment1 = Inr example_grid
   \<and> sample_fields (''2010-01-05 00:10:01 00:10:00'' # example_rows)
       = Inr ((2010, 1, 5, 0, 10, 1), (0, 10, 0))
   \<and> bind_e (td_mul 1 \<lparr>td_days = 0, td_seconds = 600\<rparr>)
         (datetime_add (h_start_stamp example_segment0))
       = Inr \<lparr>dt_year = 2010, dt_month = 1, dt_day = 5,
              dt_hour = 0, dt_minute = 10, dt_second = 0\<rparr>
   \<and> parse2_sample 1 (''2010-01-05 00:10:01 00:10:00'' # example_rows)
       example_mnd example_segment0 example_segment1
       = Inl (ParseError mismatch_message
               [FTime (h_start_stamp example_segment0),
                FTime \<lparr>dt_year = 2010, dt_month = 1, dt_day = 5,
                       dt_hour = 0, dt_minute = 10, dt_second = 1\<rparr>,
                FInt 1, FInt 600])"
proof -
  have ok: "parse2_sample 1 (''2010-01-05 00:10:00 00:10:00'' # example_rows)
              example_mnd example_segment0 example_segment1 = Inr example_grid"
    by code_simp
  have f: "sample_fields (''2010-01-05 00:10:01 00:10:00'' # example_rows)
           = Inr ((2010, 1, 5, 0, 10, 1), (0, 10, 0))"
    by code_simp
  have st: "datetime_new 2010 1 5 0 10 1
            = Inr \<lparr>dt_year = 2010, dt_month = 1, dt_day = 5,
                   dt_hour = 0, dt_minute = 10, dt_second = 1\<rparr>"
    by code_simp
  have td: "timedelta_new 0 10 0 = Inr \<lparr>td_days = 0, td_seconds = 600\<rparr>"
    by code_simp
  have ex: "bind_e (td_mul 1 \<lparr>td_days = 0, td_seconds = 600\<rparr>)
              (datetime_add (h_start_stamp example_segment0))
            = Inr \<lparr>dt_year = 2010, dt_month = 1, dt_day = 5,
                   dt_hour = 0, dt_minute = 10, dt_second = 0\<rparr>"
    by code_simp
  have ne: "\<lparr>dt_year = 2010, dt_month = 1, dt_day = 5,
              dt_hour = 0, dt_minute = 10, dt_second = 1\<rparr>
            \<noteq> \<lparr>dt_year = 2010, dt_month = 1, dt_day = 5,
                 dt_hour = 0, dt_minute = 10, dt_second = (0::int)\<rparr>"
    by simp
  from timestamp_identity [of 1 "''2010-01-05 00:10:01 00:10:00'' # example_rows"
      example_mnd example_segment0 example_segment1]
  have "parse2_sample 1 (''2010-01-05 00:10:01 00:10:00'' # example_rows)
          example_mnd example_segment0 example_segment1
        = Inl (ParseError mismatch_message
                [FTime (h_start_stamp example_segment0),
                 FTime \<lparr>dt_year = 2010, dt_month = 1, dt_day = 5,
                        dt_hour = 0, dt_minute = 10, dt_second = 1\<rparr>,
                 FInt 1, FInt ((0 * 3600 + 10 * 60 + 0) mod 86400)])"
    using f st td ex ne by blast
  with ok f ex show ?thesis by simp
qed

text \<open>
  C6: the code does not check the seconds of the interval. A sample whose interval is
  \<open>00:10:75\<close> is accepted, with an interval of 675 seconds; a sample whose own stamp has
  the second 61 is refused by the third range check, under a message that names the second
  of the interval, 0.
\<close>

theorem sample_second_not_checked:
  "parse2_sample 0 (''2010-01-05 00:00:00 00:10:75'' # example_rows)
     example_mnd example_segment0 example_segment1
     = Inr (example_grid\<lparr>g_sample_interval := \<lparr>td_days = 0, td_seconds = 675\<rparr>\<rparr>)
   \<and> parse2_sample 1 (''2010-01-05 00:10:61 00:10:00'' # example_rows)
       example_mnd example_segment0 example_segment1
       = Inl (ParseError ''Sample second {0} out of range'' [FInt 0])"
  by code_simp

text \<open>
  C7: the row count check raises no structured error. A sample of four rows in a file whose
  header announces three is refused with \<open>AttributeError\<close>, which names neither count. The
  message of the check of the directory year against the start year carries the start
  month. A constants segment without its \<open>height above ground\<close> line is refused when the
  result is built, with \<open>UnboundLocalError\<close>.
\<close>

theorem row_count_error_unstructured:
  "parse2_sample 0 (''2010-01-05 00:00:00 00:10:00'' # example_rows @ [''30 4.5 0''])
     example_mnd example_segment0 example_segment1 = Inl AttributeError
   \<and> fst (parse0 [''FORMAT-1'', ''2011-01-05 00:00:00 1'', ''SFAS'', ''2 2 3''] example_mnd [])
       = Inl (ParseError ''Directory year {0} is not same as start year {1}''
               [FStr ''2010'', FStr ''01''])
   \<and> parse1 (filter (\<lambda>l. \<not> startswith l ''height above ground'') example_constants)
       example_mnd example_segment0 = Inl UnboundLocalError"
  by code_simp


section \<open>The rolling grid\<close>

lemma parse2_loop_result:
  "fst (parse2_loop i segs mnd s0 s1 c inc) = fst (parse2_loop i segs mnd s0 s1 c [])"
proof (induction segs arbitrary: i)
  case Nil
  then show ?case by simp
next
  case (Cons seg segs)
  then show ?case
    by (cases "parse2_sample i seg mnd s0 s1") auto
qed

lemma parse2_result:
  "fst (parse2 segments mnd s0 s1 inc) = fst (parse2 segments mnd s0 s1 [])"
  using parse2_loop_result [of 1 "drop 3 segments" mnd s0 s1 _ inc]
  by (simp add: parse2_def split: sum.splits)

lemma parse_segments_result:
  "fst (parse_segments segments mnd augmenteds inconsistents)
     = fst (parse_segments segments mnd [] [])"
proof (cases "nth_e segments 0")
  case (Inl e)
  then show ?thesis by (simp add: parse_segments_def)
next
  case (Inr seg0)
  obtain r0 a0 where p0: "parse0 seg0 mnd augmenteds = (r0, a0)"
    by (cases "parse0 seg0 mnd augmenteds") auto
  obtain r0' a0' where p0': "parse0 seg0 mnd [] = (r0', a0')"
    by (cases "parse0 seg0 mnd []") auto
  have r0: "r0' = r0"
    using parse0_result [of seg0 mnd augmenteds] p0 p0' by simp
  show ?thesis
  proof (cases r0)
    case (Inl e)
    then show ?thesis by (simp add: parse_segments_def Inr p0 p0' r0)
  next
    case s0: (Inr segment0)
    show ?thesis
    proof (cases "bind_e (nth_e segments 1) (\<lambda>seg1. parse1 seg1 mnd segment0)")
      case (Inl e)
      then show ?thesis by (simp add: parse_segments_def Inr p0 p0' r0 s0 del: One_nat_def)
    next
      case s1: (Inr segment1)
      obtain r2 i2 where p2: "parse2 segments mnd segment0 segment1 inconsistents = (r2, i2)"
        by (cases "parse2 segments mnd segment0 segment1 inconsistents") auto
      obtain r2' i2' where p2': "parse2 segments mnd segment0 segment1 [] = (r2', i2')"
        by (cases "parse2 segments mnd segment0 segment1 []") auto
      have "r2' = r2"
        using parse2_result [of segments mnd segment0 segment1 inconsistents] p2 p2' by simp
      then show ?thesis
        by (cases r2) (simp_all add: parse_segments_def Inr p0 p0' r0 s0 s1 p2 p2' del: One_nat_def)
    qed
  qed
qed

lemma parse_segments_path:
  "parse_segments segments mnd augmenteds inconsistents = (Inr v, a, b) \<Longrightarrow> mnd \<noteq> []"
proof -
  assume ok: "parse_segments segments mnd augmenteds inconsistents = (Inr v, a, b)"
  then obtain seg0 where "nth_e segments 0 = Inr seg0"
    by (cases "nth_e segments 0") (auto simp: parse_segments_def)
  with ok obtain segment0 a0 where "parse0 seg0 mnd augmenteds = (Inr segment0, a0)"
    by (cases "parse0 seg0 mnd augmenteds"; cases "fst (parse0 seg0 mnd augmenteds)")
       (auto simp: parse_segments_def)
  then obtain w where "parse0_checks seg0 mnd = Inr w"
    by (cases "parse0_checks seg0 mnd") (auto simp: parse0_def)
  then show ?thesis by (rule parse0_checks_nonempty_path)
qed

lemma process_file_no_grid:
  assumes "file_grid (mnd, lines) = None"
  shows "prev_segment2 (process_file st (mnd, lines)) = prev_segment2 st"
    and "prev_mnd (process_file st (mnd, lines)) = prev_mnd st"
    and "incongruent_mnds (process_file st (mnd, lines)) = incongruent_mnds st"
proof -
  have "prev_segment2 (process_file st (mnd, lines)) = prev_segment2 st
        \<and> prev_mnd (process_file st (mnd, lines)) = prev_mnd st
        \<and> incongruent_mnds (process_file st (mnd, lines)) = incongruent_mnds st"
  proof (cases "length (segment lines) = 50")
    case False
    then show ?thesis by (simp add: process_file_def try_body_irregular)
  next
    case True
    obtain r a b
      where ps: "parse_segments (segment lines) mnd (augmented_mnds st) (inconsistent_segments st)
                 = (r, a, b)"
      by (cases "parse_segments (segment lines) mnd (augmented_mnds st) (inconsistent_segments st)")
         auto
    have "fst (parse_segments (segment lines) mnd [] []) = r"
      using parse_segments_result [of "segment lines" mnd "augmented_mnds st"
          "inconsistent_segments st"] ps by simp
    with assms True obtain e where "r = Inl e"
      by (cases r) (auto simp: file_grid_def)
    then show ?thesis
      by (simp add: process_file_def try_body_parsed [OF True] ps)
  qed
  then show "prev_segment2 (process_file st (mnd, lines)) = prev_segment2 st"
    and "prev_mnd (process_file st (mnd, lines)) = prev_mnd st"
    and "incongruent_mnds (process_file st (mnd, lines)) = incongruent_mnds st"
    by simp_all
qed

lemma process_file_grid:
  assumes "file_grid (mnd, lines) = Some g"
  shows "prev_segment2 (process_file st (mnd, lines)) = Some g"
    and "truthy (prev_mnd (process_file st (mnd, lines)))"
    and "incongruent_mnds (process_file st (mnd, lines))
           = (if truthy (prev_mnd st) \<and> prev_segment2 st = Some g then incongruent_mnds st
              else incongruent_mnds st @ [(mnd, g)])"
proof -
  from assms have len: "length (segment lines) = 50"
    by (cases "length (segment lines) = 50") (auto simp: file_grid_def)
  obtain r a b
    where ps: "parse_segments (segment lines) mnd (augmented_mnds st) (inconsistent_segments st)
               = (r, a, b)"
    by (cases "parse_segments (segment lines) mnd (augmented_mnds st) (inconsistent_segments st)")
       auto
  have "fst (parse_segments (segment lines) mnd [] []) = r"
    using parse_segments_result [of "segment lines" mnd "augmented_mnds st"
        "inconsistent_segments st"] ps by simp
  with assms len obtain segment0 segment1 where r: "r = Inr (segment0, segment1, g)"
    by (cases r) (auto simp: file_grid_def)
  from parse_segments_path [OF ps [unfolded r]] have ne: "mnd \<noteq> []" .
  show "prev_segment2 (process_file st (mnd, lines)) = Some g"
    by (simp add: process_file_def try_body_parsed [OF len] ps r)
  show "truthy (prev_mnd (process_file st (mnd, lines)))"
    using ne by (simp add: process_file_def try_body_parsed [OF len] ps r truthy_def)
  show "incongruent_mnds (process_file st (mnd, lines))
           = (if truthy (prev_mnd st) \<and> prev_segment2 st = Some g then incongruent_mnds st
              else incongruent_mnds st @ [(mnd, g)])"
    by (auto simp: process_file_def try_body_parsed [OF len] ps r)
qed


lemma main_loop_snoc: "main_loop st (files @ [f]) = process_file (main_loop st files) f"
  by (simp add: main_loop_def)

lemma last_grid_snoc:
  "last_grid (files @ [f]) = (case file_grid f of None \<Rightarrow> last_grid files | Some g \<Rightarrow> Some g)"
  by (simp add: last_grid_def split: option.splits)

lemma rolling_state:
  "prev_segment2 (main_loop initial_state files) = last_grid files
   \<and> (truthy (prev_mnd (main_loop initial_state files)) \<longleftrightarrow> last_grid files \<noteq> None)"
proof (induction files rule: rev_induct)
  case Nil
  show ?case by (simp add: main_loop_def last_grid_def initial_state_def truthy_def)
next
  case (snoc f files)
  obtain mnd lines where f: "f = (mnd, lines)" by (cases f) auto
  show ?case
  proof (cases "file_grid f")
    case None
    with snoc process_file_no_grid [of mnd lines "main_loop initial_state files"]
    show ?thesis by (simp add: main_loop_snoc last_grid_snoc f)
  next
    case (Some g)
    with process_file_grid [of mnd lines g "main_loop initial_state files"]
    show ?thesis by (simp add: main_loop_snoc last_grid_snoc f)
  qed
qed

lemma incongruent_snoc:
  "incongruent_mnds (main_loop initial_state (files @ [f]))
     = (case file_grid f of
          None \<Rightarrow> incongruent_mnds (main_loop initial_state files)
        | Some g \<Rightarrow>
            if last_grid files = Some g then incongruent_mnds (main_loop initial_state files)
            else incongruent_mnds (main_loop initial_state files) @ [(fst f, g)])"
proof -
  obtain mnd lines where f: "f = (mnd, lines)" by (cases f) auto
  show ?thesis
  proof (cases "file_grid f")
    case None
    with process_file_no_grid [of mnd lines "main_loop initial_state files"]
    show ?thesis by (simp add: main_loop_snoc f)
  next
    case (Some g)
    with process_file_grid [of mnd lines g "main_loop initial_state files"] rolling_state [of files]
    show ?thesis by (auto simp: main_loop_snoc f)
  qed
qed

lemma last_grid_None: "last_grid files = None \<longleftrightarrow> (\<forall>f \<in> set files. file_grid f = None)"
  by (induction files rule: rev_induct) (auto simp: last_grid_snoc last_grid_def split: option.splits)

lemma find_snoc:
  "List.find P (xs @ [x]) = (case List.find P xs of None \<Rightarrow> (if P x then Some x else None) | Some y \<Rightarrow> Some y)"
  by (induction xs) auto

lemma single_grid_run:
  "(\<forall>f \<in> set files. file_grid f = None \<or> file_grid f = Some g) \<Longrightarrow>
   incongruent_mnds (main_loop initial_state files)
     = (case List.find (\<lambda>f. file_grid f \<noteq> None) files of None \<Rightarrow> [] | Some f \<Rightarrow> [(fst f, g)])"
proof (induction files rule: rev_induct)
  case Nil
  show ?case by (simp add: main_loop_def initial_state_def)
next
  case (snoc f files)
  then have IH: "incongruent_mnds (main_loop initial_state files)
     = (case List.find (\<lambda>f. file_grid f \<noteq> None) files of None \<Rightarrow> [] | Some f \<Rightarrow> [(fst f, g)])"
    and f: "file_grid f = None \<or> file_grid f = Some g"
    and files: "\<forall>f \<in> set files. file_grid f = None \<or> file_grid f = Some g"
    by auto
  show ?case
  proof (cases "List.find (\<lambda>f. file_grid f \<noteq> None) files")
    case None
    then have "\<forall>f \<in> set files. file_grid f = None"
      by (auto simp: find_None_iff)
    then have "last_grid files = None" by (simp add: last_grid_None)
    with IH None f show ?thesis
      by (auto simp: incongruent_snoc find_snoc)
  next
    case (Some f0)
    then have "f0 \<in> set files" "file_grid f0 \<noteq> None"
      by (auto simp: find_Some_iff)
    with files have "last_grid files \<noteq> None" by (auto simp: last_grid_None)
    moreover have "last_grid files = None \<or> last_grid files = Some g"
    proof (cases "last_grid files")
      case None then show ?thesis by simp
    next
      case (Some g')
      have "\<exists>f \<in> set files. file_grid f = Some g'"
        using Some by (induction files rule: rev_induct)
          (auto simp: last_grid_snoc last_grid_def split: option.splits)
      with files Some show ?thesis by auto
    qed
    ultimately have "last_grid files = Some g" by auto
    with IH Some f show ?thesis
      by (auto simp: incongruent_snoc find_snoc)
  qed
qed


lemma example_file_parses:
  "parse_segments (example_header # example_constants # example_samples) example_mnd [] []
     = (Inr (example_segment0, example_segment1, example_grid), [], [])"
  by code_simp

lemma example_file_grid: "file_grid (example_mnd, example_file) = Some example_grid"
  by (simp add: file_grid_def segment_example_file length_example_samples example_file_parses)

lemma augmented_example_parses:
  "parse_segments (example_header # example_constants # example_samples) augmented_mnd [] []
     = (Inr (example_segment0, example_segment1, example_grid), [augmented_mnd], [])"
  by code_simp

lemma augmented_example_grid: "file_grid (augmented_mnd, example_file) = Some example_grid"
  by (simp add: file_grid_def segment_example_file length_example_samples augmented_example_parses)

lemma broken_file_grid: "file_grid (''/data/201001/100105w.mnd'', broken_file) = None"
proof -
  have "fst (parse_segments (example_header # [''# file information''] # example_samples)
          ''/data/201001/100105w.mnd'' [] []) = Inl StopIteration"
    by code_simp
  then show ?thesis
    by (simp add: file_grid_def segment_broken_file length_example_samples)
qed

lemma empty_file_grid: "file_grid (mnd, []) = None"
  by (simp add: file_grid_def segment_def)

text \<open>
  C4. \<open>file_grid\<close> is the grid of a file that validates: 50 segments that the three parsers
  accept. After any run, \<open>prev_segment2\<close> is the grid of the last file that validated
  (\<open>last_grid\<close>), and a file that does not validate leaves it as it is, in every state. A
  file that validates with grid \<open>g\<close> adds the entry \<open>(path, g)\<close> to \<open>incongruent_mnds\<close>
  exactly when the rolling grid is not \<open>g\<close>: when it is another grid or when no file has
  validated yet. So a run whose validating files all have the grid \<open>g\<close> ends with the one
  entry of the first of them, and with none when no file validates.
\<close>

theorem rolling_grid:
  "prev_segment2 (main_loop initial_state files) = last_grid files
   \<and> (\<forall>st. file_grid f = None \<longrightarrow>
         prev_segment2 (process_file st f) = prev_segment2 st
         \<and> incongruent_mnds (process_file st f) = incongruent_mnds st)
   \<and> incongruent_mnds (main_loop initial_state (files @ [f]))
       = (case file_grid f of
            None \<Rightarrow> incongruent_mnds (main_loop initial_state files)
          | Some g \<Rightarrow>
              if last_grid files = Some g then incongruent_mnds (main_loop initial_state files)
              else incongruent_mnds (main_loop initial_state files) @ [(fst f, g)])
   \<and> ((\<forall>x \<in> set files. file_grid x = None \<or> file_grid x = Some g) \<longrightarrow>
        incongruent_mnds (main_loop initial_state files)
          = (case List.find (\<lambda>x. file_grid x \<noteq> None) files of
               None \<Rightarrow> []
             | Some x \<Rightarrow> [(fst x, g)]))"
proof (intro conjI allI impI)
  show "prev_segment2 (main_loop initial_state files) = last_grid files"
    using rolling_state [of files] by simp
  show "prev_segment2 (process_file st f) = prev_segment2 st"
    and "incongruent_mnds (process_file st f) = incongruent_mnds st"
    if "file_grid f = None" for st
    using that process_file_no_grid [of "fst f" "snd f" st] by simp_all
  show "incongruent_mnds (main_loop initial_state (files @ [f]))
       = (case file_grid f of
            None \<Rightarrow> incongruent_mnds (main_loop initial_state files)
          | Some g \<Rightarrow>
              if last_grid files = Some g then incongruent_mnds (main_loop initial_state files)
              else incongruent_mnds (main_loop initial_state files) @ [(fst f, g)])"
    by (rule incongruent_snoc)
  show "incongruent_mnds (main_loop initial_state files)
          = (case List.find (\<lambda>x. file_grid x \<noteq> None) files of
               None \<Rightarrow> []
             | Some x \<Rightarrow> [(fst x, g)])"
    if "\<forall>x \<in> set files. file_grid x = None \<or> file_grid x = Some g"
    using that by (rule single_grid_run)
qed

theorem rolling_grid_witness:
  "map file_grid
     [(''/data/201001/100104.mnd'', []), (example_mnd, example_file),
      (''/data/201001/100105w.mnd'', broken_file), (augmented_mnd, example_file)]
     = [None, Some example_grid, None, Some example_grid]
   \<and> incongruent_mnds
        (main_loop initial_state
          [(''/data/201001/100104.mnd'', []), (example_mnd, example_file),
           (''/data/201001/100105w.mnd'', broken_file), (augmented_mnd, example_file)])
       = [(example_mnd, example_grid)]
   \<and> prev_segment2
        (main_loop initial_state
          [(''/data/201001/100104.mnd'', []), (example_mnd, example_file),
           (''/data/201001/100105w.mnd'', broken_file), (augmented_mnd, example_file)])
       = Some example_grid"
proof -
  from rolling_grid [of "[(''/data/201001/100104.mnd'', []), (example_mnd, example_file),
        (''/data/201001/100105w.mnd'', broken_file), (augmented_mnd, example_file)]"
      "(''/data/201001/100104.mnd'', [])" example_grid]
    empty_file_grid example_file_grid broken_file_grid augmented_example_grid
  show ?thesis by (simp add: last_grid_def)
qed


section \<open>The values of the site constants\<close>

lemma isdigit_plain: "isdigit c \<Longrightarrow> \<not> isspace c \<and> c \<noteq> CHR ''#''"
  by (auto simp: isdigit_def isspace_def)

lemma int_literal_chars:
  assumes "int_literal v"
  shows "v \<noteq> []" and "\<forall>c \<in> set v. \<not> isspace c \<and> c \<noteq> CHR ''#''"
proof -
  from assms obtain c cs where v: "v = c # cs"
    by (cases v) (auto simp: int_literal_def py_int_def)
  then show "v \<noteq> []" by simp
  have sign: "\<not> isspace (CHR ''-'')" "\<not> isspace (CHR ''+'')"
    by (simp_all add: isspace_def)
  from assms v have "(c = CHR ''-'' \<or> c = CHR ''+'' \<or> isdigit c) \<and> list_all isdigit cs"
    by (auto simp: int_literal_def py_int_def split: if_splits)
  then show "\<forall>c \<in> set v. \<not> isspace c \<and> c \<noteq> CHR ''#''"
    using sign isdigit_plain by (auto simp: v list_all_iff)
qed

lemma split_ws_loop_token:
  "\<forall>c \<in> set v. \<not> isspace c \<Longrightarrow>
   split_ws_loop tok v = (if tok @ v = [] then [] else [tok @ v])"
  by (induction v arbitrary: tok) auto

lemma split_ws_loop_last:
  assumes "isspace sp" "v \<noteq> []" "\<forall>c \<in> set v. \<not> isspace c"
  shows "split_ws_loop tok (s @ sp # v) \<noteq> [] \<and> last (split_ws_loop tok (s @ sp # v)) = v"
proof (induction s arbitrary: tok)
  case Nil
  have "split_ws_loop [] v = [v]"
    using assms(2,3) by (simp add: split_ws_loop_token)
  then show ?case using assms(1) by simp
next
  case (Cons c s)
  show ?case
  proof (cases "isspace c")
    case True
    with Cons [of "[]"] show ?thesis by simp
  next
    case False
    with Cons [of "tok @ [c]"] show ?thesis by simp
  qed
qed

lemma last_int_label:
  assumes "p \<in> set constant_labels" "int_literal v"
  shows "last_int (p @ v) = py_int v"
proof -
  from assms(1) obtain s where p: "p = s @ [CHR '' '']"
    by (auto simp: constant_labels_def)
  have sp: "isspace (CHR '' '')" by (simp add: isspace_def)
  from int_literal_chars [OF assms(2)] have "v \<noteq> []" "\<forall>c \<in> set v. \<not> isspace c"
    by simp_all
  from split_ws_loop_last [OF sp this, of "[]" s]
  show ?thesis by (simp add: last_int_def split_ws_def p)
qed

lemma prefix_Cons_mem: "prefix (a # as) s \<Longrightarrow> a \<in> set s"
  by (cases s) auto

lemma split_sep_loop_no_hash:
  "CHR ''#'' \<notin> set s \<Longrightarrow> split_sep_loop '' # '' piece s = [piece @ s]"
  by (induction s arbitrary: piece) (auto dest: prefix_Cons_mem)

lemma split_sep_label:
  assumes "p \<in> set constant_labels" "int_literal v"
  shows "nth_e (split_sep (p @ v) '' # '') 1 = Inl IndexError"
proof -
  from assms(1) have "CHR ''#'' \<notin> set p"
    by (auto simp: constant_labels_def)
  with int_literal_chars(2) [OF assms(2)] have "CHR ''#'' \<notin> set (p @ v)" by auto
  then show ?thesis
    by (simp add: split_sep_def split_sep_loop_no_hash nth_e_def)
qed

lemma same_but_value_cases:
  assumes "same_but_value l1 l2"
  obtains (same) "l1 = l2"
  | (label) p v1 v2 where "p \<in> set constant_labels" "l1 = p @ v1" "l2 = p @ v2"
      "int_literal v1" "int_literal v2"
proof (cases "l1 = l2")
  case True
  then show ?thesis by (rule same)
next
  case False
  with assms obtain p where p: "p \<in> set constant_labels" "prefix p l1" "prefix p l2"
    "int_literal (drop (length p) l1)" "int_literal (drop (length p) l2)"
    by (auto simp: same_but_value_def list_ex_iff startswith_def)
  from p(2,3) obtain v1 v2 where "l1 = p @ v1" "l2 = p @ v2"
    by (auto elim!: prefixE)
  with p show ?thesis by (auto intro: label)
qed

lemma label_startswith:
  assumes "p \<in> set constant_labels"
  shows "\<not> startswith (p @ v) ''#''"
    and "\<not> startswith (p @ v) ''Main Data''"
    and "\<not> startswith (p @ v) ''error code #''"
    and "startswith (p @ v) ''antenna azimuth angle [deg] : '' \<longleftrightarrow> p = constant_labels ! 0"
    and "startswith (p @ v) ''height above ground [m]     : '' \<longleftrightarrow> p = constant_labels ! 1"
    and "startswith (p @ v) ''height above sea level [m]  : '' \<longleftrightarrow> p = constant_labels ! 2"
  using assms by (auto simp: constant_labels_def startswith_def)


lemma bind_rel:
  assumes "rel_sum (=) R m1 m2"
    and "\<And>x y. R x y \<Longrightarrow> rel_sum (=) S (f x) (g y)"
  shows "rel_sum (=) S (bind_e m1 f) (bind_e m2 g)"
  using assms by (cases m1; cases m2) auto

lemma same_but_value_refl: "same_but_value l l"
  by (simp add: same_but_value_def)

lemma same_but_value_startswith:
  assumes "same_but_value l1 l2"
  shows "startswith l1 ''#'' = startswith l2 ''#''"
    and "startswith l1 ''Main Data'' = startswith l2 ''Main Data''"
    and "startswith l1 ''error code #'' = startswith l2 ''error code #''"
  using assms by (cases rule: same_but_value_cases; simp add: label_startswith)+

lemma set_constant_same:
  "locals_rel x y \<Longrightarrow> rel_sum (=) locals_rel (set_constant x l) (set_constant y l)"
  by (cases x; cases y; cases "last_int l")
     (auto simp: set_constant_def locals_rel_def)

lemma set_constant_label:
  assumes "p \<in> set constant_labels" "int_literal v1" "int_literal v2" "locals_rel x y"
  shows "rel_sum (=) locals_rel (set_constant x (p @ v1)) (set_constant y (p @ v2))"
proof -
  from assms(2,3) obtain n1 n2 where n: "py_int v1 = Inr n1" "py_int v2 = Inr n2"
    by (auto simp: int_literal_def split: sum.splits)
  have li: "last_int (p @ v1) = Inr n1" "last_int (p @ v2) = Inr n2"
    using last_int_label [OF assms(1)] assms(2,3) n by simp_all
  obtain a1 e1 h1 a2 e2 h2 where xy: "x = (a1, e1, h1)" "y = (a2, e2, h2)"
    by (cases x; cases y) auto
  have ne: "constant_labels ! 1 \<noteq> constant_labels ! 0"
    "constant_labels ! 2 \<noteq> constant_labels ! 0" "constant_labels ! 2 \<noteq> constant_labels ! 1"
    by (simp_all add: constant_labels_def)
  note sw = label_startswith(4-6) [OF assms(1)]
  from assms(1) consider "p = constant_labels ! 0" | "p = constant_labels ! 1"
    | "p = constant_labels ! 2"
    by (auto simp: constant_labels_def)
  then show ?thesis
  proof cases
    case 1
    then have "startswith (p @ v) ''antenna azimuth angle [deg] : ''" for v
      using sw(1) [of v] by blast
    with assms(4) show ?thesis
      by (simp add: set_constant_def xy li locals_rel_def)
  next
    case 2
    then have "\<not> startswith (p @ v) ''antenna azimuth angle [deg] : ''"
      and "startswith (p @ v) ''height above ground [m]     : ''" for v
      using sw(1,2) [of v] ne by metis+
    with assms(4) show ?thesis
      by (simp add: set_constant_def xy li locals_rel_def)
  next
    case 3
    then have "\<not> startswith (p @ v) ''antenna azimuth angle [deg] : ''"
      and "\<not> startswith (p @ v) ''height above ground [m]     : ''"
      and "startswith (p @ v) ''height above sea level [m]  : ''" for v
      using sw [of v] ne by metis+
    with assms(4) show ?thesis
      by (simp add: set_constant_def xy li locals_rel_def)
  qed
qed

lemma set_constant_rel:
  assumes "same_but_value l1 l2" "locals_rel x y"
  shows "rel_sum (=) locals_rel (set_constant x l1) (set_constant y l2)"
  using assms(1)
proof (cases rule: same_but_value_cases)
  case same
  with set_constant_same [OF assms(2)] show ?thesis by simp
next
  case (label p v1 v2)
  with set_constant_label [OF label(1,4,5) assms(2)] show ?thesis by simp
qed

lemma split_variable_rel:
  assumes "same_but_value l1 l2"
  shows "nth_e (split_sep l1 '' # '') 1 = nth_e (split_sep l2 '' # '') 1"
  using assms by (cases rule: same_but_value_cases) (simp_all add: split_sep_label del: One_nat_def)

lemma next_line_rel:
  "list_all2 same_but_value r1 r2 \<Longrightarrow> rel_sum (=) cursor_rel (next_line r1) (next_line r2)"
  by (cases r1; cases r2) (auto simp: next_line_def cursor_rel_def)

lemma skip_comments_rel:
  "same_but_value l1 l2 \<Longrightarrow> list_all2 same_but_value r1 r2 \<Longrightarrow>
   rel_sum (=) cursor_rel (skip_comments l1 r1) (skip_comments l2 r2)"
proof (induction r1 arbitrary: l1 l2 r2)
  case Nil
  then show ?case
    using same_but_value_startswith(1) [of l1 l2] by (simp add: cursor_rel_def)
next
  case (Cons a r1)
  then obtain b r2' where r2: "r2 = b # r2'" "same_but_value a b" "list_all2 same_but_value r1 r2'"
    by (cases r2) auto
  show ?case
    using same_but_value_startswith(1) [OF Cons.prems(1)] Cons.IH [OF r2(2,3)] Cons.prems r2
    by (simp add: cursor_rel_def)
qed

lemma read_constants_rel:
  "locals_rel x y \<Longrightarrow> same_but_value l1 l2 \<Longrightarrow> list_all2 same_but_value r1 r2 \<Longrightarrow>
   rel_sum (=) (\<lambda>u w. locals_rel (fst u) (fst w) \<and> cursor_rel (snd u) (snd w))
     (read_constants x l1 r1) (read_constants y l2 r2)"
proof (induction r1 arbitrary: x y l1 l2 r2)
  case Nil
  then have r2: "r2 = []" by simp
  show ?case
  proof (cases "startswith l1 ''#''")
    case True
    with same_but_value_startswith(1) [OF Nil.prems(2)] Nil.prems show ?thesis
      by (simp add: r2 cursor_rel_def)
  next
    case False
    with same_but_value_startswith(1) [OF Nil.prems(2)] have f2: "\<not> startswith l2 ''#''" by simp
    from set_constant_rel [OF Nil.prems(2,1)] False f2 show ?thesis
      by (cases "set_constant x l1"; cases "set_constant y l2") (auto simp: r2)
  qed
next
  case (Cons a r1)
  then obtain b r2' where r2: "r2 = b # r2'" "same_but_value a b" "list_all2 same_but_value r1 r2'"
    by (cases r2) auto
  show ?case
  proof (cases "startswith l1 ''#''")
    case True
    with same_but_value_startswith(1) [OF Cons.prems(2)] Cons.prems show ?thesis
      by (simp add: r2 cursor_rel_def)
  next
    case False
    with same_but_value_startswith(1) [OF Cons.prems(2)] have f2: "\<not> startswith l2 ''#''" by simp
    show ?thesis
    proof (cases "set_constant x l1")
      case (Inl e)
      with set_constant_rel [OF Cons.prems(2,1)] False f2 show ?thesis
        by (cases "set_constant y l2") (auto simp: r2)
    next
      case (Inr x')
      with set_constant_rel [OF Cons.prems(2,1)] obtain y'
        where y': "set_constant y l2 = Inr y'" "locals_rel x' y'"
        by (cases "set_constant y l2") auto
      from Cons.IH [OF y'(2) r2(2,3)] False f2 Inr y' show ?thesis
        by (simp add: r2)
    qed
  qed
qed

lemma read_variables_rel:
  "same_but_value l1 l2 \<Longrightarrow> list_all2 same_but_value r1 r2 \<Longrightarrow>
   rel_sum (=) (\<lambda>u w. fst u = fst w \<and> cursor_rel (snd u) (snd w))
     (read_variables n vars l1 r1) (read_variables n vars l2 r2)"
proof (induction n arbitrary: vars l1 l2 r1 r2)
  case 0
  then show ?case by (simp add: cursor_rel_def)
next
  case (Suc n)
  show ?case
  proof (cases "nth_e (split_sep l1 '' # '') 1")
    case (Inl e)
    with split_variable_rel [OF Suc.prems(1)] show ?thesis by simp
  next
    case (Inr v)
    with split_variable_rel [OF Suc.prems(1)]
    have v2: "nth_e (split_sep l2 '' # '') 1 = Inr v" by simp
    show ?thesis
    proof (cases r1)
      case Nil
      with Suc.prems(2) Inr v2 show ?thesis by simp
    next
      case (Cons a r1')
      with Suc.prems(2) obtain b r2'
        where r2: "r2 = b # r2'" "same_but_value a b" "list_all2 same_but_value r1' r2'"
        by (cases r2) auto
      from Suc.IH [OF r2(2,3)] Inr v2 Cons r2(1) show ?thesis by simp
    qed
  qed
qed


lemma parse1_rel:
  assumes "list_all2 same_but_value c1 c2"
  shows "rel_sum (=) (\<lambda>a b. c_variables a = c_variables b)
           (parse1 c1 mnd segment0) (parse1 c2 mnd segment0)"
  unfolding parse1_def
  apply (rule bind_rel [where R = cursor_rel])
   apply (rule next_line_rel [OF assms])
  apply (clarsimp simp: cursor_rel_def)
  apply (rule bind_rel [where R = cursor_rel])
   apply (erule (1) skip_comments_rel)
  apply (thin_tac "same_but_value _ _", thin_tac "list_all2 _ _ _")
  apply (clarsimp simp: cursor_rel_def)
  apply (rule bind_rel [where R = "\<lambda>u w. locals_rel (fst u) (fst w) \<and> cursor_rel (snd u) (snd w)"])
   apply (rule read_constants_rel)
     apply (simp add: locals_rel_def)
    apply assumption
   apply assumption
  apply (thin_tac "same_but_value _ _", thin_tac "list_all2 _ _ _")
  apply (clarsimp simp: cursor_rel_def)
  apply (rule bind_rel [where R = cursor_rel])
   apply (erule (1) skip_comments_rel)
  apply (thin_tac "same_but_value _ _", thin_tac "list_all2 _ _ _")
  apply (clarsimp simp: cursor_rel_def)
  apply (frule same_but_value_startswith(2))
  apply (clarsimp)
  apply (rule bind_rel [where R = cursor_rel])
   apply (erule next_line_rel)
  apply (thin_tac "same_but_value _ _", thin_tac "list_all2 _ _ _")
  apply (clarsimp simp: cursor_rel_def)
  apply (rule bind_rel [where R = cursor_rel])
   apply (erule (1) skip_comments_rel)
  apply (thin_tac "same_but_value _ _", thin_tac "list_all2 _ _ _")
  apply (clarsimp simp: cursor_rel_def)
  apply (rule bind_rel [where R = "\<lambda>u w. fst u = fst w \<and> cursor_rel (snd u) (snd w)"])
   apply (erule (1) read_variables_rel)
  apply (thin_tac "same_but_value _ _", thin_tac "list_all2 _ _ _")
  apply (clarsimp simp: cursor_rel_def)
  apply (frule same_but_value_startswith(3))
  apply (simp)
  apply (intro conjI impI)
   apply (rule bind_rel [where R = "(=)"])
    apply (simp add: sum.rel_eq)
   apply (clarsimp)
  apply (rule bind_rel [where R = "(=)"])
   apply (simp add: sum.rel_eq)
  apply (clarsimp)
  apply (rule bind_rel [where R = cursor_rel])
   apply (erule next_line_rel)
  apply (clarsimp simp: cursor_rel_def locals_rel_def split: option.splits)
  done


lemma parse2_sample_variables:
  "c_variables s1 = c_variables s1' \<Longrightarrow>
   parse2_sample i seg mnd s0 s1 = parse2_sample i seg mnd s0 s1'"
  by (simp add: parse2_sample_def check_variables_def cong: if_cong)

lemma parse2_loop_variables:
  "c_variables s1 = c_variables s1' \<Longrightarrow>
   parse2_loop i segs mnd s0 s1 c inc = parse2_loop i segs mnd s0 s1' c inc"
proof (induction segs arbitrary: i)
  case Nil
  then show ?case by simp
next
  case (Cons seg segs)
  from Cons.IH [OF Cons.prems] parse2_sample_variables [OF Cons.prems, of i seg mnd s0]
  show ?case by (simp split: sum.splits)
qed

lemma parse2_variables:
  assumes "c_variables s1 = c_variables s1'"
  shows "parse2 (h # c1 # r) mnd s0 s1 inc = parse2 (h # c2 # r) mnd s0 s1' inc"
proof -
  have n: "nth_e (h # c # r) 2 = nth_e r 0" for c :: "string list"
    by (simp add: nth_e_def)
  show ?thesis
    using parse2_sample_variables [OF assms, of 0 _ mnd s0]
      parse2_loop_variables [OF assms, of 1 _ mnd s0 _ inc]
    by (simp add: parse2_def n split: sum.splits)
qed

lemma parse_segments_rel:
  assumes "list_all2 same_but_value c1 c2"
    and "parse_segments (h # c1 # r) mnd aug inc = (r1, a1, i1)"
    and "parse_segments (h # c2 # r) mnd aug inc = (r2, a2, i2)"
  shows "a1 = a2 \<and> i1 = i2
         \<and> rel_sum (=) (\<lambda>u w. fst u = fst w \<and> snd (snd u) = snd (snd w)) r1 r2"
proof -
  have n0: "nth_e (h # c # r) 0 = Inr h" and n1: "nth_e (h # c # r) 1 = Inr c"
    for c :: "string list"
    by (simp_all add: nth_e_def)
  obtain r0 a0 where p0: "parse0 h mnd aug = (r0, a0)"
    by (cases "parse0 h mnd aug") auto
  show ?thesis
  proof (cases r0)
    case (Inl e)
    with assms(2,3) show ?thesis
      by (auto simp: parse_segments_def n0 p0)
  next
    case (Inr segment0)
    note rel = parse1_rel [OF assms(1), of mnd segment0]
    show ?thesis
    proof (cases "parse1 c1 mnd segment0")
      case (Inl e)
      with rel have "parse1 c2 mnd segment0 = Inl e"
        by (cases "parse1 c2 mnd segment0") auto
      with assms(2,3) Inl Inr show ?thesis
        by (auto simp: parse_segments_def n0 n1 p0 simp del: One_nat_def)
    next
      case s1: (Inr segment1)
      with rel obtain segment1' where s1': "parse1 c2 mnd segment0 = Inr segment1'"
        and v: "c_variables segment1 = c_variables segment1'"
        by (cases "parse1 c2 mnd segment0") auto
      obtain q j where p2: "parse2 (h # c1 # r) mnd segment0 segment1 inc = (q, j)"
        by (cases "parse2 (h # c1 # r) mnd segment0 segment1 inc") auto
      with parse2_variables [OF v, of h c1 r mnd segment0 inc c2]
      have p2': "parse2 (h # c2 # r) mnd segment0 segment1' inc = (q, j)" by simp
      from assms(2,3) show ?thesis
        by (cases q) (auto simp: parse_segments_def n0 n1 p0 Inr s1 s1' p2 p2' simp del: One_nat_def)
    qed
  qed
qed

lemma try_body_rel:
  assumes "agree st1 st2" "list_all2 same_but_value c1 c2"
    and "segment lines1 = h # c1 # r" "segment lines2 = h # c2 # r"
  shows "fst (try_body st1 mnd lines1) = fst (try_body st2 mnd lines2)
         \<and> agree (snd (try_body st1 mnd lines1)) (snd (try_body st2 mnd lines2))"
proof (cases "length (segment lines1) = 50")
  case False
  with assms(3,4) have "length (segment lines2) \<noteq> 50" by simp
  with False assms(1,3,4) show ?thesis
    by (simp add: try_body_irregular agree_def)
next
  case True
  with assms(3,4) have len2: "length (segment lines2) = 50" by simp
  from assms(1) have same: "augmented_mnds st2 = augmented_mnds st1"
    "inconsistent_segments st2 = inconsistent_segments st1"
    by (simp_all add: agree_def)
  obtain r1 a1 i1
    where ps1: "parse_segments (h # c1 # r) mnd (augmented_mnds st1) (inconsistent_segments st1)
                = (r1, a1, i1)"
    by (cases "parse_segments (h # c1 # r) mnd (augmented_mnds st1) (inconsistent_segments st1)")
       auto
  obtain r2 a2 i2
    where ps2: "parse_segments (h # c2 # r) mnd (augmented_mnds st1) (inconsistent_segments st1)
                = (r2, a2, i2)"
    by (cases "parse_segments (h # c2 # r) mnd (augmented_mnds st1) (inconsistent_segments st1)")
       auto
  from parse_segments_rel [OF assms(2) ps1 ps2]
  have eq: "a1 = a2" "i1 = i2"
    and rel: "rel_sum (=) (\<lambda>u w. fst u = fst w \<and> snd (snd u) = snd (snd w)) r1 r2"
    by simp_all
  show ?thesis
  proof (cases r1)
    case (Inl e)
    with rel have "r2 = Inl e" by (cases r2) auto
    with Inl assms(1) show ?thesis
      by (simp add: try_body_parsed [OF True] try_body_parsed [OF len2] assms(3,4) same
               ps1 ps2 eq agree_def)
  next
    case (Inr v)
    obtain segment0 segment1 segment2 where v: "v = (segment0, segment1, segment2)"
      by (cases v) auto
    with Inr rel obtain segment1' where "r2 = Inr (segment0, segment1', segment2)"
      by (cases r2) auto
    with Inr v assms(1) show ?thesis
      by (simp add: try_body_parsed [OF True] try_body_parsed [OF len2] assms(3,4) same
               ps1 ps2 eq agree_def)
  qed
qed


lemma same_but_constants_cases:
  assumes "same_but_constants f1 f2"
  obtains (short) "fst f1 = fst f2" "segment (snd f1) = segment (snd f2)"
      "length (segment (snd f1)) < 2"
  | (long) h c1 c2 r where "fst f1 = fst f2" "segment (snd f1) = h # c1 # r"
      "segment (snd f2) = h # c2 # r" "list_all2 same_but_value c1 c2"
proof (cases "segment (snd f1)")
  case Nil
  with assms show ?thesis by (auto simp: same_but_constants_def intro: short)
next
  case (Cons h t)
  show ?thesis
  proof (cases t)
    case Nil
    with Cons assms show ?thesis by (auto simp: same_but_constants_def intro: short)
  next
    case c: (Cons c1 r)
    with Cons assms show ?thesis
      by (auto simp: same_but_constants_def split: list.splits intro: long)
  qed
qed

lemma process_file_rel:
  assumes "agree st1 st2" "same_but_constants f1 f2"
  shows "agree (process_file st1 f1) (process_file st2 f2)"
  using assms(2)
proof (cases rule: same_but_constants_cases)
  case short
  then have "length (segment (snd f1)) \<noteq> 50" "length (segment (snd f2)) \<noteq> 50"
    by simp_all
  with short(1,2) assms(1) show ?thesis
    by (simp add: process_file_def try_body_irregular agree_def)
next
  case (long h c1 c2 r)
  from try_body_rel [OF assms(1) long(4,2,3), of "fst f1"]
  have "fst (try_body st1 (fst f1) (snd f1)) = fst (try_body st2 (fst f1) (snd f2))"
    and "agree (snd (try_body st1 (fst f1) (snd f1))) (snd (try_body st2 (fst f1) (snd f2)))"
    by simp_all
  then show ?thesis
    by (cases "try_body st1 (fst f1) (snd f1)"; cases "try_body st2 (fst f1) (snd f2)")
       (auto simp: process_file_def long(1) [symmetric] agree_def split: option.splits)
qed

lemma file_grid_rel:
  assumes "same_but_constants f1 f2"
  shows "file_grid f1 = file_grid f2"
  using assms
proof (cases rule: same_but_constants_cases)
  case short
  then show ?thesis by (simp add: file_grid_def)
next
  case (long h c1 c2 r)
  obtain r1 a1 i1 where ps1: "parse_segments (h # c1 # r) (fst f1) [] [] = (r1, a1, i1)"
    by (cases "parse_segments (h # c1 # r) (fst f1) [] []") auto
  obtain r2 a2 i2 where ps2: "parse_segments (h # c2 # r) (fst f1) [] [] = (r2, a2, i2)"
    by (cases "parse_segments (h # c2 # r) (fst f1) [] []") auto
  from parse_segments_rel [OF long(4) ps1 ps2]
  have "rel_sum (=) (\<lambda>u w. fst u = fst w \<and> snd (snd u) = snd (snd w)) r1 r2" by simp
  then show ?thesis
    by (cases r1; cases r2)
       (auto simp: file_grid_def long(1) [symmetric] long(2,3) ps1 ps2 split: prod.splits)
qed

lemma main_loop_rel:
  "list_all2 same_but_constants files1 files2 \<Longrightarrow> agree st1 st2 \<Longrightarrow>
   agree (main_loop st1 files1) (main_loop st2 files2)"
proof (induction files1 files2 arbitrary: st1 st2 rule: list_all2_induct)
  case Nil
  then show ?case by (simp add: main_loop_def)
next
  case (Cons f1 fs1 f2 fs2)
  from process_file_rel [OF Cons.prems Cons.hyps(1)]
  have "agree (process_file st1 f1) (process_file st2 f2)" .
  from Cons.IH [OF this] show ?case by (simp add: main_loop_def)
qed


text \<open>
  C10. Two runs are taken over files with the same paths, file by file, where the two
  files of a pair have the same segments except for their second segment, the constants:
  there, line by line, the two lines are the same or are the same label of a constant
  followed by an integer literal each. Then the two runs end with the same six lists and
  the same rolling grid, and every file has the same grid in both.
\<close>

theorem constants_do_not_matter:
  assumes "list_all2 same_but_constants files1 files2"
  shows "irregular_segments (main_loop initial_state files1)
           = irregular_segments (main_loop initial_state files2)
     \<and> insufficient_segments (main_loop initial_state files1)
           = insufficient_segments (main_loop initial_state files2)
     \<and> inconsistent_segments (main_loop initial_state files1)
           = inconsistent_segments (main_loop initial_state files2)
     \<and> augmented_mnds (main_loop initial_state files1)
           = augmented_mnds (main_loop initial_state files2)
     \<and> incongruent_mnds (main_loop initial_state files1)
           = incongruent_mnds (main_loop initial_state files2)
     \<and> exceptional_mnds (main_loop initial_state files1)
           = exceptional_mnds (main_loop initial_state files2)
     \<and> prev_segment2 (main_loop initial_state files1)
           = prev_segment2 (main_loop initial_state files2)
     \<and> map file_grid files1 = map file_grid files2"
proof -
  have "agree initial_state initial_state" by (simp add: agree_def)
  from main_loop_rel [OF assms this]
  have a: "agree (main_loop initial_state files1) (main_loop initial_state files2)" .
  have "map file_grid files1 = map file_grid files2"
    using assms by (induction rule: list_all2_induct) (simp_all add: file_grid_rel)
  with a show ?thesis by (simp add: agree_def)
qed

theorem constants_do_not_matter_witness:
  "same_but_constants (example_mnd, example_file) (example_mnd, other_file)
   \<and> parse1 example_constants example_mnd example_segment0 = Inr example_segment1
   \<and> parse1 other_constants example_mnd example_segment0
       = Inr (example_segment1\<lparr>c_angle := 270, c_elevation := - 2, c_height := 1500\<rparr>)
   \<and> incongruent_mnds (main_loop initial_state [(example_mnd, other_file)])
       = [(example_mnd, example_grid)]
   \<and> exceptional_mnds (main_loop initial_state [(example_mnd, other_file)]) = []
   \<and> map file_grid [(example_mnd, other_file)] = [Some example_grid]"
proof -
  have "clean_segment other_constants" by code_simp
  from segment_file_lines [OF example_clean(1) this example_clean(3)]
  have seg: "segment other_file = example_header # other_constants # example_samples"
    by (simp add: other_file_def)
  have "list_all2 same_but_value example_constants other_constants"
    by code_simp
  then have sim: "same_but_constants (example_mnd, example_file) (example_mnd, other_file)"
    by (simp add: same_but_constants_def segment_example_file seg)
  then have sims: "list_all2 same_but_constants [(example_mnd, example_file)]
                     [(example_mnd, other_file)]"
    by simp
  have p1: "parse1 example_constants example_mnd example_segment0 = Inr example_segment1"
    by code_simp
  have p2: "parse1 other_constants example_mnd example_segment0
       = Inr (example_segment1\<lparr>c_angle := 270, c_elevation := - 2, c_height := 1500\<rparr>)"
    by code_simp
  have run: "process_file initial_state (example_mnd, example_file)
       = initial_state\<lparr>incongruent_mnds := [(example_mnd, example_grid)],
            prev_mnd := Some example_mnd, prev_segment0 := Some example_segment0,
            prev_segment1 := Some example_segment1, prev_segment2 := Some example_grid\<rparr>"
    by (simp add: process_file_def try_body_def segment_example_file length_example_samples
          example_file_parses initial_state_def truthy_def)
  have r1: "incongruent_mnds (main_loop initial_state [(example_mnd, example_file)])
              = [(example_mnd, example_grid)]"
    by (simp add: main_loop_def run)
  have r2: "exceptional_mnds (main_loop initial_state [(example_mnd, example_file)]) = []"
    by (simp add: main_loop_def run) (simp add: initial_state_def)
  from constants_do_not_matter [OF sims] sim p1 p2 example_file_grid r1 r2 show ?thesis
    by simp
qed


end
